theory Spec2Isabelle
  imports Main "HOL-Library.Word"
begin

section \<open>The kernel and program cache of the SYCL runtime\<close>

text \<open>
  Shallow embedding of \<^verbatim>\<open>sycl/source/detail/kernel_program_cache.hpp\<close>, class
  \<^verbatim>\<open>KernelProgramCache\<close>. Member functions become functions that take the cache object
  and return their result together with the updated object.
\<close>

subsection \<open>Handles and scalar types\<close>

text \<open>
  \<^verbatim>\<open>RT::PiProgram\<close>, \<^verbatim>\<open>RT::PiKernel\<close>, \<^verbatim>\<open>RT::PiDevice\<close>, \<^verbatim>\<open>std::mutex *\<close>,
  \<^verbatim>\<open>const KernelArgMask *\<close> and \<^verbatim>\<open>context_impl *\<close> are raw pointers to objects the
  cache never looks into: a pointer is either null or an address.
\<close>

datatype pointer = nullptr | Addr nat

type_synonym PiProgram = pointer
type_synonym PiKernel = pointer
type_synonym PiDevice = pointer
type_synonym ContextPtr = pointer

text \<open>\<^verbatim>\<open>SerializedObj\<close> is \<^verbatim>\<open>std::vector<unsigned char>\<close>; \<^verbatim>\<open>OSModuleHandle\<close> is
  \<^verbatim>\<open>intptr_t\<close>; \<^verbatim>\<open>pi_int32\<close> is a 32-bit integer.\<close>

type_synonym SerializedObj = "8 word list"
type_synonym uintptr_t = "64 word"
type_synonym OSModuleHandle = "64 word"
type_synonym pi_int32 = "32 word"

subsection \<open>Build results\<close>

record BuildError =
  Msg :: string
  Code :: pi_int32

definition isFilledIn :: "BuildError \<Rightarrow> bool" where
  "isFilledIn E = (Msg E \<noteq> [])"

datatype BuildState = BS_InProgress | BS_Done | BS_Failed

text \<open>
  \<^verbatim>\<open>BuildResult<T>\<close>. The constructor \<^verbatim>\<open>BuildResult(T *P, BuildState S)\<close> initialises
  \<^verbatim>\<open>Ptr\<close>, \<^verbatim>\<open>State\<close> and \<^verbatim>\<open>Error{"", 0}\<close> and leaves \<^verbatim>\<open>Val\<close> default-initialised,
  which is \<open>None\<close> here. The condition variable \<^verbatim>\<open>MBuildCV\<close> and the mutex
  \<^verbatim>\<open>MBuildResultMutex\<close> carry no data; waiting on them is modelled by
  \<open>waitUntilBuilt_pred\<close> below.
\<close>

record 'T BuildResult =
  Ptr :: pointer
  Val :: "'T option"
  State :: BuildState
  Error :: BuildError

definition BuildResult_ctor :: "pointer \<Rightarrow> BuildState \<Rightarrow> 'T BuildResult" where
  "BuildResult_ctor P S = \<lparr>Ptr = P, Val = None, State = S, Error = \<lparr>Msg = [], Code = 0\<rparr>\<rparr>"

subsection \<open>Keys and containers\<close>

type_synonym ProgramWithBuildStateT = "PiProgram BuildResult"
type_synonym ProgramCacheKeyT = "(SerializedObj \<times> uintptr_t) \<times> (PiDevice \<times> string)"
type_synonym CommonProgramKeyT = "uintptr_t \<times> PiDevice"

text \<open>
  A \<^verbatim>\<open>std::map\<close> is a partial function. The \<^verbatim>\<open>std::multimap\<close> \<^verbatim>\<open>KeyMap\<close> may hold several
  pairs with one key, so it is the list of its pairs in the order they were emplaced.
\<close>

record ProgramCache =
  Cache :: "ProgramCacheKeyT \<rightharpoonup> ProgramWithBuildStateT"
  KeyMap :: "(CommonProgramKeyT \<times> ProgramCacheKeyT) list"

definition ProgramCache_empty :: ProgramCache where
  "ProgramCache_empty = \<lparr>Cache = Map.empty, KeyMap = []\<rparr>"

text \<open>\<^verbatim>\<open>size_t size() const noexcept { return Cache.size(); }\<close>\<close>

definition ProgramCache_size :: "ProgramCache \<Rightarrow> nat" where
  "ProgramCache_size PC = card (dom (Cache PC))"

type_synonym KernelArgMaskPairT = "PiKernel \<times> pointer"
type_synonym KernelByNameT = "string \<rightharpoonup> KernelArgMaskPairT BuildResult"
type_synonym KernelCacheT = "PiProgram \<rightharpoonup> KernelByNameT"

type_synonym KernelFastCacheKeyT =
  "SerializedObj \<times> OSModuleHandle \<times> PiDevice \<times> string \<times> string"
type_synonym KernelFastCacheValT = "PiKernel \<times> pointer \<times> pointer \<times> PiProgram"
type_synonym KernelFastCacheT = "KernelFastCacheKeyT \<rightharpoonup> KernelFastCacheValT"

record KernelProgramCache =
  MCachedPrograms :: ProgramCache
  MKernelsPerProgramCache :: KernelCacheT
  MParentContext :: ContextPtr
  MKernelFastCache :: KernelFastCacheT

text \<open>The three mutex members of the class.\<close>

datatype mutex = MProgramCacheMutex | MKernelsPerProgramCacheMutex | MKernelFastCacheMutex

text \<open>A cache object as the implicit default constructor leaves it: every container empty.
  \<^verbatim>\<open>MParentContext\<close> has no initialiser, so its first value is a parameter.\<close>

definition KernelProgramCache_new :: "ContextPtr \<Rightarrow> KernelProgramCache" where
  "KernelProgramCache_new ctx =
     \<lparr>MCachedPrograms = ProgramCache_empty, MKernelsPerProgramCache = Map.empty,
      MParentContext = ctx, MKernelFastCache = Map.empty\<rparr>"

definition setContextPtr :: "ContextPtr \<Rightarrow> KernelProgramCache \<Rightarrow> KernelProgramCache" where
  "setContextPtr AContext c = c\<lparr>MParentContext := AContext\<rparr>"

text \<open>\<^verbatim>\<open>Locked<T>\<close> pairs a reference to the data with the mutex it holds locked.\<close>

definition acquireCachedPrograms :: "KernelProgramCache \<Rightarrow> ProgramCache \<times> mutex" where
  "acquireCachedPrograms c = (MCachedPrograms c, MProgramCacheMutex)"

definition acquireKernelsPerProgramCache :: "KernelProgramCache \<Rightarrow> KernelCacheT \<times> mutex" where
  "acquireKernelsPerProgramCache c = (MKernelsPerProgramCache c, MKernelsPerProgramCacheMutex)"

subsection \<open>Operations\<close>

text \<open>
  \<^verbatim>\<open>std::map::emplace\<close>: constructs the element only if the key is absent. The result is the
  map and the flag of the returned \<^verbatim>\<open>pair<iterator, bool>\<close>; the iterator points at the
  element with the given key in either case.
\<close>

definition emplace :: "'k \<Rightarrow> 'v \<Rightarrow> ('k \<rightharpoonup> 'v) \<Rightarrow> ('k \<rightharpoonup> 'v) \<times> bool" where
  "emplace k v m = (case m k of Some _ \<Rightarrow> (m, False) | None \<Rightarrow> (m(k \<mapsto> v), True))"

text \<open>\<^verbatim>\<open>std::make_pair(CacheKey.first.second, CacheKey.second.first)\<close>\<close>

definition CommonKey :: "ProgramCacheKeyT \<Rightarrow> CommonProgramKeyT" where
  "CommonKey CacheKey = (snd (fst CacheKey), fst (snd CacheKey))"

text \<open>
  \<^verbatim>\<open>getOrInsertProgram\<close> returns \<^verbatim>\<open>&Inserted.first->second\<close>, the address of the entry stored
  under \<^verbatim>\<open>CacheKey\<close>. A map has one node per key, so the key stands for that address and
  \<open>deref_program\<close> reads the entry behind it.
\<close>

definition getOrInsertProgram ::
  "ProgramCacheKeyT \<Rightarrow> KernelProgramCache \<Rightarrow> (ProgramCacheKeyT \<times> bool) \<times> KernelProgramCache" where
  "getOrInsertProgram CacheKey c =
     (let ProgCache = fst (acquireCachedPrograms c);
          Inserted = emplace CacheKey (BuildResult_ctor nullptr BS_InProgress) (Cache ProgCache);
          ProgCache' = ProgCache\<lparr>Cache := fst Inserted\<rparr>;
          ProgCache'' =
            (if snd Inserted
             then ProgCache'\<lparr>KeyMap := KeyMap ProgCache' @ [(CommonKey CacheKey, CacheKey)]\<rparr>
             else ProgCache')
      in ((CacheKey, snd Inserted), c\<lparr>MCachedPrograms := ProgCache''\<rparr>))"

definition deref_program ::
  "KernelProgramCache \<Rightarrow> ProgramCacheKeyT \<Rightarrow> ProgramWithBuildStateT option" where
  "deref_program c ref = Cache (MCachedPrograms c) ref"

text \<open>\<^verbatim>\<open>std::map::operator[]\<close>: inserts a value-initialised element if the key is absent.\<close>

definition subscript :: "'k \<Rightarrow> 'v \<Rightarrow> ('k \<rightharpoonup> 'v) \<Rightarrow> 'v \<times> ('k \<rightharpoonup> 'v)" where
  "subscript k dflt m = (case m k of Some v \<Rightarrow> (v, m) | None \<Rightarrow> (dflt, m(k \<mapsto> dflt)))"

definition getOrInsertKernel ::
  "PiProgram \<Rightarrow> string \<Rightarrow> KernelProgramCache
     \<Rightarrow> ((PiProgram \<times> string) \<times> bool) \<times> KernelProgramCache" where
  "getOrInsertKernel Program KernelName c =
     (let LockedCache = fst (acquireKernelsPerProgramCache c);
          (Cache0, LockedCache') = subscript Program Map.empty LockedCache;
          Inserted = emplace KernelName (BuildResult_ctor nullptr BS_InProgress) Cache0
      in (((Program, KernelName), snd Inserted),
          c\<lparr>MKernelsPerProgramCache := LockedCache'(Program \<mapsto> fst Inserted)\<rparr>))"

definition deref_kernel ::
  "KernelProgramCache \<Rightarrow> PiProgram \<times> string \<Rightarrow> KernelArgMaskPairT BuildResult option" where
  "deref_kernel c ref =
     (case MKernelsPerProgramCache c (fst ref) of None \<Rightarrow> None | Some byName \<Rightarrow> byName (snd ref))"

text \<open>
  \<^verbatim>\<open>waitUntilBuilt(BR, Pred)\<close> locks \<^verbatim>\<open>BR.MBuildResultMutex\<close> and calls
  \<^verbatim>\<open>BR.MBuildCV.wait(Lock, Pred)\<close>, which is \<^verbatim>\<open>while (!Pred()) wait(Lock);\<close>. What other
  threads do to the entry is given as the list of the entry's contents at each moment the
  waiter evaluates the predicate: first when it has taken the lock, then after each wake-up.
  The result is the number of times the waiter blocked and the contents that satisfied the
  predicate; a waiter that is never woken with the predicate true does not return (\<open>None\<close>).
\<close>

fun waitUntilBuilt_pred :: "('a \<Rightarrow> bool) \<Rightarrow> 'a list \<Rightarrow> (nat \<times> 'a) option" where
  "waitUntilBuilt_pred Pred [] = None"
| "waitUntilBuilt_pred Pred (BR # later) =
     (if Pred BR then Some (0, BR)
      else (case waitUntilBuilt_pred Pred later of
              None \<Rightarrow> None
            | Some (n, BR') \<Rightarrow> Some (Suc n, BR')))"

text \<open>
  \<^verbatim>\<open>waitUntilBuilt<ExceptionT>(BuildResult)\<close>: the exception constructor is a parameter, a
  thrown exception is \<open>Inl\<close>, the returned \<^verbatim>\<open>Ptr.load()\<close> is \<open>Inr\<close>. Nothing in this class
  writes to an entry after its insertion, so \<^verbatim>\<open>Error\<close> and \<^verbatim>\<open>Ptr\<close> are read from the
  contents that ended the wait.
\<close>

definition waitUntilBuilt ::
  "(string \<Rightarrow> pi_int32 \<Rightarrow> 'e) \<Rightarrow> 'T BuildResult list \<Rightarrow> (nat \<times> ('e + pointer)) option" where
  "waitUntilBuilt ExceptionT obs =
     (case waitUntilBuilt_pred (\<lambda>BR. State BR = BS_Done \<or> State BR = BS_Failed) obs of
        None \<Rightarrow> None
      | Some (n, BR) \<Rightarrow>
          Some (n, if isFilledIn (Error BR)
                   then Inl (ExceptionT (Msg (Error BR)) (Code (Error BR)))
                   else Inr (Ptr BR)))"

definition tryToGetKernelFast :: "KernelFastCacheKeyT \<Rightarrow> KernelProgramCache \<Rightarrow> KernelFastCacheValT" where
  "tryToGetKernelFast CacheKey c =
     (case MKernelFastCache c CacheKey of
        Some v \<Rightarrow> v
      | None \<Rightarrow> (nullptr, nullptr, nullptr, nullptr))"

definition saveKernel ::
  "KernelFastCacheKeyT \<Rightarrow> KernelFastCacheValT \<Rightarrow> KernelProgramCache \<Rightarrow> KernelProgramCache" where
  "saveKernel CacheKey CacheVal c =
     c\<lparr>MKernelFastCache := fst (emplace CacheKey CacheVal (MKernelFastCache c))\<rparr>"

definition reset :: "KernelProgramCache \<Rightarrow> KernelProgramCache" where
  "reset c = c\<lparr>MCachedPrograms := ProgramCache_empty,
               MKernelsPerProgramCache := Map.empty,
               MKernelFastCache := Map.empty\<rparr>"

subsection \<open>Calls and call sequences\<close>

text \<open>
  A call of a state-changing or state-reading member function, and what it returns.
  \<^verbatim>\<open>waitUntilBuilt\<close> and \<^verbatim>\<open>notifyAllBuild\<close> are \<^verbatim>\<open>const\<close> and touch one entry's
  condition variable only, so they do not appear here.
\<close>

datatype cache_op =
    OpGetOrInsertProgram ProgramCacheKeyT
  | OpGetOrInsertKernel PiProgram string
  | OpTryToGetKernelFast KernelFastCacheKeyT
  | OpSaveKernel KernelFastCacheKeyT KernelFastCacheValT
  | OpSetContextPtr ContextPtr
  | OpReset

datatype op_result =
    RetProgram ProgramCacheKeyT bool
  | RetKernel "PiProgram \<times> string" bool
  | RetFast KernelFastCacheValT
  | RetVoid

fun call :: "cache_op \<Rightarrow> KernelProgramCache \<Rightarrow> op_result \<times> KernelProgramCache" where
  "call (OpGetOrInsertProgram CacheKey) c =
     (case getOrInsertProgram CacheKey c of ((ref, fresh), c') \<Rightarrow> (RetProgram ref fresh, c'))"
| "call (OpGetOrInsertKernel Program KernelName) c =
     (case getOrInsertKernel Program KernelName c of
        ((ref, fresh), c') \<Rightarrow> (RetKernel ref fresh, c'))"
| "call (OpTryToGetKernelFast CacheKey) c = (RetFast (tryToGetKernelFast CacheKey c), c)"
| "call (OpSaveKernel CacheKey CacheVal) c = (RetVoid, saveKernel CacheKey CacheVal c)"
| "call (OpSetContextPtr AContext) c = (RetVoid, setContextPtr AContext c)"
| "call OpReset c = (RetVoid, reset c)"

fun calls :: "cache_op list \<Rightarrow> KernelProgramCache \<Rightarrow> op_result list \<times> KernelProgramCache" where
  "calls [] c = ([], c)"
| "calls (x # xs) c =
     (case call x c of (r, c') \<Rightarrow> (case calls xs c' of (rs, c'') \<Rightarrow> (r # rs, c'')))"

subsection \<open>Member functions as steps of a thread\<close>

text \<open>
  A member function that runs next to another thread is a list of steps: locking a cache
  mutex, unlocking it, and reading or writing the cache object. A step of the last kind
  also sees the one local variable that the functions below carry from one statement to
  the next, the flag \<^verbatim>\<open>Inserted.second\<close>.
\<close>

datatype thread_id = ThreadA | ThreadB

datatype action =
    Acquire mutex
  | Release mutex
  | Do "bool \<times> KernelProgramCache \<Rightarrow> bool \<times> KernelProgramCache"

text \<open>
  \<^verbatim>\<open>getOrInsertProgram\<close>, statement by statement: \<^verbatim>\<open>acquireCachedPrograms()\<close> locks
  \<^verbatim>\<open>MProgramCacheMutex\<close>; \<^verbatim>\<open>ProgCache.Cache.emplace(...)\<close>; the \<^verbatim>\<open>if (Inserted.second)\<close>
  with \<^verbatim>\<open>ProgCache.KeyMap.emplace(...)\<close>; the lock is released when \<^verbatim>\<open>LockedCache\<close> goes
  out of scope.
\<close>

definition getOrInsertProgram_actions :: "ProgramCacheKeyT \<Rightarrow> action list" where
  "getOrInsertProgram_actions CacheKey =
     [Acquire MProgramCacheMutex,
      Do (\<lambda>(flag, c).
            let Inserted = emplace CacheKey (BuildResult_ctor nullptr BS_InProgress)
                             (Cache (MCachedPrograms c))
            in (snd Inserted, c\<lparr>MCachedPrograms := (MCachedPrograms c)\<lparr>Cache := fst Inserted\<rparr>\<rparr>)),
      Do (\<lambda>(flag, c).
            (flag,
             if flag
             then c\<lparr>MCachedPrograms := (MCachedPrograms c)
                    \<lparr>KeyMap := KeyMap (MCachedPrograms c) @ [(CommonKey CacheKey, CacheKey)]\<rparr>\<rparr>
             else c)),
      Release MProgramCacheMutex]"

text \<open>\<^verbatim>\<open>reset\<close>, statement by statement: three assignments and no lock.\<close>

definition reset_actions :: "action list" where
  "reset_actions =
     [Do (\<lambda>(flag, c). (flag, c\<lparr>MCachedPrograms := ProgramCache_empty\<rparr>)),
      Do (\<lambda>(flag, c). (flag, c\<lparr>MKernelsPerProgramCache := Map.empty\<rparr>)),
      Do (\<lambda>(flag, c). (flag, c\<lparr>MKernelFastCache := Map.empty\<rparr>))]"

text \<open>
  The \<^verbatim>\<open>reset()\<close> that the specification describes in its section 4.4, for comparison:
  it takes the three mutexes in the order program cache, kernel cache, fast path, clears
  the subcaches and releases the mutexes.
\<close>

definition reset_actions_as_specified :: "action list" where
  "reset_actions_as_specified =
     [Acquire MProgramCacheMutex, Acquire MKernelsPerProgramCacheMutex,
      Acquire MKernelFastCacheMutex] @
     reset_actions @
     [Release MKernelFastCacheMutex, Release MKernelsPerProgramCacheMutex,
      Release MProgramCacheMutex]"

text \<open>
  Two threads over one cache object: what each still has to do, each thread's flag, who
  holds which mutex, and the cache.
\<close>

record system =
  todo :: "thread_id \<Rightarrow> action list"
  local_flag :: "thread_id \<Rightarrow> bool"
  owner :: "mutex \<rightharpoonup> thread_id"
  shared :: KernelProgramCache

definition start :: "action list \<Rightarrow> action list \<Rightarrow> KernelProgramCache \<Rightarrow> system" where
  "start actionsA actionsB c =
     \<lparr>todo = (\<lambda>t. case t of ThreadA \<Rightarrow> actionsA | ThreadB \<Rightarrow> actionsB),
      local_flag = (\<lambda>t. False), owner = Map.empty, shared = c\<rparr>"

text \<open>
  One step of thread \<open>t\<close>. A \<^verbatim>\<open>std::mutex\<close> that is held cannot be locked, so a thread at
  such an \<open>Acquire\<close> cannot be the one that moves (\<open>None\<close>); neither can a thread that has
  finished.
\<close>

definition step :: "thread_id \<Rightarrow> system \<Rightarrow> system option" where
  "step t s =
     (case todo s t of
        [] \<Rightarrow> None
      | Acquire m # rest \<Rightarrow>
          (case owner s m of
             Some holder \<Rightarrow> None
           | None \<Rightarrow> Some (s\<lparr>todo := (todo s)(t := rest), owner := (owner s)(m \<mapsto> t)\<rparr>))
      | Release m # rest \<Rightarrow>
          Some (s\<lparr>todo := (todo s)(t := rest), owner := (owner s)(m := None)\<rparr>)
      | Do f # rest \<Rightarrow>
          (case f (local_flag s t, shared s) of
             (flag, c) \<Rightarrow>
               Some (s\<lparr>todo := (todo s)(t := rest),
                       local_flag := (local_flag s)(t := flag), shared := c\<rparr>)))"

text \<open>A schedule names the thread that moves at each step.\<close>

fun schedule :: "thread_id list \<Rightarrow> system \<Rightarrow> system option" where
  "schedule [] s = Some s"
| "schedule (t # ts) s = (case step t s of None \<Rightarrow> None | Some s' \<Rightarrow> schedule ts s')"

subsection \<open>Publishing a build result\<close>

text \<open>
  Modelled from the spec: \<^verbatim>\<open>publish_success\<close>, the transition from \<^verbatim>\<open>InProgress\<close> to
  \<^verbatim>\<open>Done\<close>. The builder makes it through the pointer that get-or-insert returned; the code
  that does so is the cache's user and is missing from the sources at hand. Section 4.1:
  it "sets \<^verbatim>\<open>value\<close>, stores \<^verbatim>\<open>ready_handle = &value\<close>, sets \<^verbatim>\<open>state = Done\<close>" and "must be
  called at most once"; section 7 names a second call on one entry a
  \<^verbatim>\<open>CacheInvariantViolation\<close>. The parameter \<open>a\<close> is the address of the entry's value field.
\<close>

datatype publish_error = CacheInvariantViolation | NoSuchEntry

definition publish_success :: "'T \<Rightarrow> nat \<Rightarrow> 'T BuildResult \<Rightarrow> publish_error + 'T BuildResult" where
  "publish_success v a BR =
     (if State BR \<noteq> BS_InProgress then Inl CacheInvariantViolation
      else Inr (BR\<lparr>Val := Some v, Ptr := Addr a, State := BS_Done\<rparr>))"

text \<open>
  Modelled from the spec: \<^verbatim>\<open>publish_failure\<close>, the transition from \<^verbatim>\<open>InProgress\<close> to
  \<^verbatim>\<open>Failed\<close>, missing from the sources like the one above. Section 4.1: it "fills
  \<^verbatim>\<open>error\<close>, sets \<^verbatim>\<open>state = Failed\<close>" and "must be called at most once".
\<close>

definition publish_failure ::
  "string \<Rightarrow> pi_int32 \<Rightarrow> 'T BuildResult \<Rightarrow> publish_error + 'T BuildResult" where
  "publish_failure message code BR =
     (if State BR \<noteq> BS_InProgress then Inl CacheInvariantViolation
      else Inr (BR\<lparr>Error := \<lparr>Msg = message, Code = code\<rparr>, State := BS_Failed\<rparr>))"

text \<open>
  Writing through a returned pointer changes the entry stored under the key that stands for
  it. A pointer whose entry is gone (the cache was reset since) refers to nothing; the
  calls below stop with \<open>NoSuchEntry\<close> there.
\<close>

definition update_program ::
  "ProgramCacheKeyT \<Rightarrow> (ProgramWithBuildStateT \<Rightarrow> publish_error + ProgramWithBuildStateT)
     \<Rightarrow> KernelProgramCache \<Rightarrow> publish_error + KernelProgramCache" where
  "update_program ref f c =
     (case deref_program c ref of
        None \<Rightarrow> Inl NoSuchEntry
      | Some BR \<Rightarrow>
          (case f BR of
             Inl e \<Rightarrow> Inl e
           | Inr BR' \<Rightarrow>
               Inr (c\<lparr>MCachedPrograms :=
                        (MCachedPrograms c)\<lparr>Cache := (Cache (MCachedPrograms c))(ref \<mapsto> BR')\<rparr>\<rparr>)))"

definition update_kernel ::
  "PiProgram \<times> string
     \<Rightarrow> (KernelArgMaskPairT BuildResult \<Rightarrow> publish_error + KernelArgMaskPairT BuildResult)
     \<Rightarrow> KernelProgramCache \<Rightarrow> publish_error + KernelProgramCache" where
  "update_kernel ref f c =
     (case MKernelsPerProgramCache c (fst ref) of
        None \<Rightarrow> Inl NoSuchEntry
      | Some byName \<Rightarrow>
          (case byName (snd ref) of
             None \<Rightarrow> Inl NoSuchEntry
           | Some BR \<Rightarrow>
               (case f BR of
                  Inl e \<Rightarrow> Inl e
                | Inr BR' \<Rightarrow>
                    Inr (c\<lparr>MKernelsPerProgramCache :=
                             (MKernelsPerProgramCache c)(fst ref \<mapsto> byName(snd ref \<mapsto> BR'))\<rparr>))))"

text \<open>What a user of the cache does: it calls member functions and publishes results.\<close>

datatype client_op =
    Member cache_op
  | ProgramBuilt ProgramCacheKeyT PiProgram nat
  | ProgramFailed ProgramCacheKeyT string pi_int32
  | KernelBuilt "PiProgram \<times> string" KernelArgMaskPairT nat
  | KernelFailed "PiProgram \<times> string" string pi_int32

fun client_call :: "client_op \<Rightarrow> KernelProgramCache \<Rightarrow> publish_error + KernelProgramCache" where
  "client_call (Member x) c = Inr (snd (call x c))"
| "client_call (ProgramBuilt ref v a) c = update_program ref (publish_success v a) c"
| "client_call (ProgramFailed ref message code) c =
     update_program ref (publish_failure message code) c"
| "client_call (KernelBuilt ref v a) c = update_kernel ref (publish_success v a) c"
| "client_call (KernelFailed ref message code) c =
     update_kernel ref (publish_failure message code) c"

fun client_calls ::
  "client_op list \<Rightarrow> KernelProgramCache \<Rightarrow> publish_error + KernelProgramCache" where
  "client_calls [] c = Inr c"
| "client_calls (x # xs) c =
     (case client_call x c of Inl e \<Rightarrow> Inl e | Inr c' \<Rightarrow> client_calls xs c')"

subsection \<open>Invariants\<close>

text \<open>The pointer of an entry is set exactly when the entry is built.\<close>

definition entry_usable_iff_done :: "'T BuildResult \<Rightarrow> bool" where
  "entry_usable_iff_done BR = (Ptr BR \<noteq> nullptr \<longleftrightarrow> State BR = BS_Done)"

definition all_entries_ok :: "KernelProgramCache \<Rightarrow> bool" where
  "all_entries_ok c =
     ((\<forall>ref BR. deref_program c ref = Some BR \<longrightarrow> entry_usable_iff_done BR) \<and>
      (\<forall>ref BR. deref_kernel c ref = Some BR \<longrightarrow> entry_usable_iff_done BR))"

text \<open>The secondary index holds one pair per key of the program cache, and nothing else.\<close>

definition KeyMap_in_sync :: "ProgramCache \<Rightarrow> bool" where
  "KeyMap_in_sync PC =
     (finite (dom (Cache PC)) \<and>
      distinct (KeyMap PC) \<and>
      set (KeyMap PC) = (\<lambda>k. (CommonKey k, k)) ` dom (Cache PC))"

section \<open>Properties\<close>

subsection \<open>Basic facts about the operations\<close>

lemma emplace_present: "m k = Some v' \<Longrightarrow> emplace k v m = (m, False)"
  by (simp add: emplace_def)

lemma emplace_absent: "m k = None \<Longrightarrow> emplace k v m = (m(k \<mapsto> v), True)"
  by (simp add: emplace_def)

lemma getOrInsertProgram_present:
  assumes "deref_program c k = Some BR"
  shows "getOrInsertProgram k c = ((k, False), c)"
  using assms
  by (simp add: getOrInsertProgram_def acquireCachedPrograms_def deref_program_def
      emplace_present Let_def)

lemma getOrInsertProgram_absent:
  assumes "deref_program c k = None"
  shows "getOrInsertProgram k c =
    ((k, True),
     c\<lparr>MCachedPrograms :=
         \<lparr>Cache = (Cache (MCachedPrograms c))(k \<mapsto> BuildResult_ctor nullptr BS_InProgress),
          KeyMap = KeyMap (MCachedPrograms c) @ [(CommonKey k, k)]\<rparr>\<rparr>)"
  using assms
  by (simp add: getOrInsertProgram_def acquireCachedPrograms_def deref_program_def
      emplace_absent Let_def)

lemma getOrInsertKernel_present:
  assumes "deref_kernel c (p, n) = Some BR"
  shows "getOrInsertKernel p n c = (((p, n), False), c)"
proof -
  from assms obtain byName where
    outer: "MKernelsPerProgramCache c p = Some byName" and inner: "byName n = Some BR"
    by (auto simp: deref_kernel_def split: option.splits)
  have "(MKernelsPerProgramCache c)(p \<mapsto> byName) = MKernelsPerProgramCache c"
    using outer by (simp add: map_upd_triv)
  then show ?thesis
    using outer inner
    by (simp add: getOrInsertKernel_def acquireKernelsPerProgramCache_def subscript_def
        emplace_present)
qed

lemma getOrInsertKernel_absent:
  assumes "deref_kernel c (p, n) = None"
  shows "getOrInsertKernel p n c =
    (((p, n), True),
     c\<lparr>MKernelsPerProgramCache :=
         (MKernelsPerProgramCache c)
           (p \<mapsto> (case MKernelsPerProgramCache c p of None \<Rightarrow> Map.empty | Some byName \<Rightarrow> byName)
                   (n \<mapsto> BuildResult_ctor nullptr BS_InProgress))\<rparr>)"
  using assms
  by (auto simp: getOrInsertKernel_def acquireKernelsPerProgramCache_def subscript_def
      deref_kernel_def emplace_absent split: option.splits)

subsection \<open>The fast-path cache\<close>

lemma saveKernel_present:
  "MKernelFastCache c k = Some v0 \<Longrightarrow> saveKernel k v c = c"
  by (simp add: saveKernel_def emplace_present)

lemma saveKernel_absent:
  "MKernelFastCache c k = None \<Longrightarrow>
   saveKernel k v c = c\<lparr>MKernelFastCache := (MKernelFastCache c)(k \<mapsto> v)\<rparr>"
  by (simp add: saveKernel_def emplace_absent)

lemma saveKernel_lookup_same:
  "MKernelFastCache (saveKernel k v c) k =
     Some (case MKernelFastCache c k of None \<Rightarrow> v | Some v0 \<Rightarrow> v0)"
  by (cases "MKernelFastCache c k") (simp_all add: saveKernel_present saveKernel_absent)

lemma saveKernel_lookup_other:
  "k' \<noteq> k \<Longrightarrow> MKernelFastCache (saveKernel k v c) k' = MKernelFastCache c k'"
  by (cases "MKernelFastCache c k") (simp_all add: saveKernel_present saveKernel_absent)

lemma saveKernel_twice: "saveKernel k v2 (saveKernel k v1 c) = saveKernel k v1 c"
  using saveKernel_lookup_same [of k v1 c] by (simp add: saveKernel_present)

text \<open>
  C5. \<^verbatim>\<open>saveKernel\<close> inserts its pair only when the key is absent from the fast-path cache.
  When the key is already mapped the call changes nothing and its value is dropped. So
  after \<^verbatim>\<open>saveKernel(key, v1)\<close> on a cache without the key, a following
  \<^verbatim>\<open>saveKernel(key, v2)\<close> leaves the cache as the first call left it: the key is mapped
  to \<open>v1\<close>, every other key is as before, and saving the same pair again changes nothing.
\<close>

theorem saveKernel_first_writer_wins:
  "(MKernelFastCache c k = None \<longrightarrow>
      saveKernel k v1 c = c\<lparr>MKernelFastCache := (MKernelFastCache c)(k \<mapsto> v1)\<rparr>) \<and>
   (\<forall>v0. MKernelFastCache c k = Some v0 \<longrightarrow> saveKernel k v1 c = c) \<and>
   (MKernelFastCache c k = None \<longrightarrow>
      MKernelFastCache (saveKernel k v2 (saveKernel k v1 c)) k = Some v1 \<and>
      dom (MKernelFastCache (saveKernel k v2 (saveKernel k v1 c))) =
        insert k (dom (MKernelFastCache c)) \<and>
      (\<forall>k'. k' \<noteq> k \<longrightarrow>
         MKernelFastCache (saveKernel k v2 (saveKernel k v1 c)) k' = MKernelFastCache c k')) \<and>
   saveKernel k v2 (saveKernel k v1 c) = saveKernel k v1 c \<and>
   saveKernel k v1 (saveKernel k v1 c) = saveKernel k v1 c"
proof (intro conjI impI allI)
  show "saveKernel k v1 c = c\<lparr>MKernelFastCache := (MKernelFastCache c)(k \<mapsto> v1)\<rparr>"
    if "MKernelFastCache c k = None"
    using that by (rule saveKernel_absent)
  show "saveKernel k v1 c = c" if "MKernelFastCache c k = Some v0" for v0
    using that by (rule saveKernel_present)
  show "MKernelFastCache (saveKernel k v2 (saveKernel k v1 c)) k = Some v1"
    if "MKernelFastCache c k = None"
    using that by (simp add: saveKernel_twice saveKernel_lookup_same)
  show "dom (MKernelFastCache (saveKernel k v2 (saveKernel k v1 c))) =
          insert k (dom (MKernelFastCache c))"
    if "MKernelFastCache c k = None"
    unfolding saveKernel_twice using that by (simp add: saveKernel_absent)
  show "MKernelFastCache (saveKernel k v2 (saveKernel k v1 c)) k' = MKernelFastCache c k'"
    if "k' \<noteq> k" for k'
    using that by (simp add: saveKernel_twice saveKernel_lookup_other)
  show "saveKernel k v2 (saveKernel k v1 c) = saveKernel k v1 c"
    by (rule saveKernel_twice)
  show "saveKernel k v1 (saveKernel k v1 c) = saveKernel k v1 c"
    by (rule saveKernel_twice)
qed

theorem saveKernel_first_writer_wins_witness:
  "MKernelFastCache (KernelProgramCache_new nullptr) ([1, 2], 7, Addr 1, ''-O2'', ''axpy'') = None \<and>
   MKernelFastCache
     (saveKernel ([1, 2], 7, Addr 1, ''-O2'', ''axpy'') (Addr 20, Addr 21, nullptr, Addr 23)
       (saveKernel ([1, 2], 7, Addr 1, ''-O2'', ''axpy'') (Addr 10, Addr 11, nullptr, Addr 13)
         (KernelProgramCache_new nullptr)))
     ([1, 2], 7, Addr 1, ''-O2'', ''axpy'') = Some (Addr 10, Addr 11, nullptr, Addr 13)"
proof -
  have absent:
    "MKernelFastCache (KernelProgramCache_new nullptr) ([1, 2], 7, Addr 1, ''-O2'', ''axpy'') = None"
    by (simp add: KernelProgramCache_new_def)
  from saveKernel_first_writer_wins
    [of "KernelProgramCache_new nullptr" "([1, 2], 7, Addr 1, ''-O2'', ''axpy'')"
        "(Addr 10, Addr 11, nullptr, Addr 13)" "(Addr 20, Addr 21, nullptr, Addr 23)"]
    absent
  show ?thesis by blast
qed

text \<open>
  C6. \<^verbatim>\<open>tryToGetKernelFast\<close> returns the stored tuple when the key is in the fast-path
  cache and the tuple of four null pointers when it is not; \<^verbatim>\<open>saveKernel(key, v)\<close> on a
  cache without the key followed by \<^verbatim>\<open>tryToGetKernelFast(key)\<close> returns \<open>v\<close>.
\<close>

theorem tryToGetKernelFast_lookup:
  "(\<forall>v. MKernelFastCache c k = Some v \<longrightarrow> tryToGetKernelFast k c = v) \<and>
   (MKernelFastCache c k = None \<longrightarrow>
      tryToGetKernelFast k c = (nullptr, nullptr, nullptr, nullptr)) \<and>
   (MKernelFastCache c k = None \<longrightarrow> tryToGetKernelFast k (saveKernel k v' c) = v')"
  by (simp add: tryToGetKernelFast_def saveKernel_absent)

theorem tryToGetKernelFast_lookup_witness:
  "MKernelFastCache (KernelProgramCache_new nullptr) ([1, 2], 7, Addr 1, ''-O2'', ''axpy'') = None \<and>
   tryToGetKernelFast ([1, 2], 7, Addr 1, ''-O2'', ''axpy'') (KernelProgramCache_new nullptr) =
     (nullptr, nullptr, nullptr, nullptr) \<and>
   tryToGetKernelFast ([1, 2], 7, Addr 1, ''-O2'', ''axpy'')
     (saveKernel ([1, 2], 7, Addr 1, ''-O2'', ''axpy'') (Addr 10, Addr 11, nullptr, Addr 13)
        (KernelProgramCache_new nullptr)) = (Addr 10, Addr 11, nullptr, Addr 13) \<and>
   MKernelFastCache
     (saveKernel ([1, 2], 7, Addr 1, ''-O2'', ''axpy'') (Addr 10, Addr 11, nullptr, Addr 13)
        (KernelProgramCache_new nullptr)) ([1, 2], 7, Addr 1, ''-O2'', ''axpy'') =
     Some (Addr 10, Addr 11, nullptr, Addr 13)"
proof -
  have absent:
    "MKernelFastCache (KernelProgramCache_new nullptr) ([1, 2], 7, Addr 1, ''-O2'', ''axpy'') = None"
    by (simp add: KernelProgramCache_new_def)
  have saved:
    "MKernelFastCache
       (saveKernel ([1, 2], 7, Addr 1, ''-O2'', ''axpy'') (Addr 10, Addr 11, nullptr, Addr 13)
          (KernelProgramCache_new nullptr)) ([1, 2], 7, Addr 1, ''-O2'', ''axpy'') =
     Some (Addr 10, Addr 11, nullptr, Addr 13)"
    using absent by (simp add: saveKernel_absent)
  from tryToGetKernelFast_lookup
    [of "KernelProgramCache_new nullptr" "([1, 2], 7, Addr 1, ''-O2'', ''axpy'')"
        "(Addr 10, Addr 11, nullptr, Addr 13)"]
    absent saved
  show ?thesis by blast
qed

subsection \<open>What each call does to the entries\<close>

lemma deref_program_getOrInsertProgram:
  "deref_program (snd (getOrInsertProgram k c)) k' =
     (if k' = k \<and> deref_program c k = None
      then Some (BuildResult_ctor nullptr BS_InProgress)
      else deref_program c k')"
proof (cases "deref_program c k")
  case None
  then show ?thesis
    by (simp add: getOrInsertProgram_absent) (simp add: deref_program_def)
next
  case (Some BR)
  then show ?thesis
    by (auto simp: getOrInsertProgram_present)
qed

lemma deref_kernel_getOrInsertProgram:
  "deref_kernel (snd (getOrInsertProgram k c)) ref = deref_kernel c ref"
  by (simp add: getOrInsertProgram_def acquireCachedPrograms_def Let_def deref_kernel_def)

lemma deref_kernel_getOrInsertKernel:
  "deref_kernel (snd (getOrInsertKernel p n c)) ref =
     (if ref = (p, n) \<and> deref_kernel c (p, n) = None
      then Some (BuildResult_ctor nullptr BS_InProgress)
      else deref_kernel c ref)"
proof (cases "deref_kernel c (p, n)")
  case None
  then show ?thesis
    by (cases ref)
      (auto simp: getOrInsertKernel_absent, auto simp: deref_kernel_def split: option.splits)
next
  case (Some BR)
  then show ?thesis
    by (auto simp: getOrInsertKernel_present)
qed

lemma deref_program_getOrInsertKernel:
  "deref_program (snd (getOrInsertKernel p n c)) k = deref_program c k"
  by (simp add: getOrInsertKernel_def acquireKernelsPerProgramCache_def deref_program_def
      Let_def split: prod.splits)

lemma deref_saveKernel [simp]:
  "deref_program (saveKernel fk fv c) k = deref_program c k"
  "deref_kernel (saveKernel fk fv c) ref = deref_kernel c ref"
  by (simp_all add: saveKernel_def deref_program_def deref_kernel_def)

lemma deref_setContextPtr [simp]:
  "deref_program (setContextPtr ctx c) k = deref_program c k"
  "deref_kernel (setContextPtr ctx c) ref = deref_kernel c ref"
  by (simp_all add: setContextPtr_def deref_program_def deref_kernel_def)

lemma deref_reset [simp]:
  "deref_program (reset c) k = None"
  "deref_kernel (reset c) ref = None"
  by (simp_all add: reset_def deref_program_def deref_kernel_def ProgramCache_empty_def)

lemma deref_new [simp]:
  "deref_program (KernelProgramCache_new ctx) k = None"
  "deref_kernel (KernelProgramCache_new ctx) ref = None"
  by (simp_all add: KernelProgramCache_new_def deref_program_def deref_kernel_def
      ProgramCache_empty_def)

lemma call_getOrInsertProgram:
  "call (OpGetOrInsertProgram k) c =
     (RetProgram (fst (fst (getOrInsertProgram k c))) (snd (fst (getOrInsertProgram k c))),
      snd (getOrInsertProgram k c))"
  by (simp split: prod.splits)

lemma call_getOrInsertKernel:
  "call (OpGetOrInsertKernel p n) c =
     (RetKernel (fst (fst (getOrInsertKernel p n c))) (snd (fst (getOrInsertKernel p n c))),
      snd (getOrInsertKernel p n c))"
  by (simp split: prod.splits)

lemma calls_Cons:
  "calls (x # xs) c =
     (fst (call x c) # fst (calls xs (snd (call x c))), snd (calls xs (snd (call x c))))"
  by (simp split: prod.splits)

lemma deref_program_call:
  "deref_program (snd (call x c)) k =
     (if x = OpReset then None
      else if x = OpGetOrInsertProgram k \<and> deref_program c k = None
      then Some (BuildResult_ctor nullptr BS_InProgress)
      else deref_program c k)"
proof (cases x)
  case (OpGetOrInsertProgram k')
  then show ?thesis
    using deref_program_getOrInsertProgram [of k' c k]
    by (auto simp: call_getOrInsertProgram simp del: call.simps)
next
  case (OpGetOrInsertKernel p n)
  then show ?thesis
    using deref_program_getOrInsertKernel [of p n c k]
    by (auto simp: call_getOrInsertKernel simp del: call.simps)
qed (simp_all)

lemma deref_kernel_call:
  "deref_kernel (snd (call x c)) ref =
     (if x = OpReset then None
      else if x = OpGetOrInsertKernel (fst ref) (snd ref) \<and> deref_kernel c ref = None
      then Some (BuildResult_ctor nullptr BS_InProgress)
      else deref_kernel c ref)"
proof (cases x)
  case (OpGetOrInsertProgram k')
  then show ?thesis
    using deref_kernel_getOrInsertProgram [of k' c ref]
    by (auto simp: call_getOrInsertProgram simp del: call.simps)
next
  case (OpGetOrInsertKernel p n)
  then show ?thesis
    using deref_kernel_getOrInsertKernel [of p n c ref]
    by (cases ref) (auto simp: call_getOrInsertKernel simp del: call.simps)
qed (simp_all)

subsection \<open>Call sequences\<close>

lemma calls_append:
  "calls (xs @ ys) c =
     (fst (calls xs c) @ fst (calls ys (snd (calls xs c))), snd (calls ys (snd (calls xs c))))"
  by (induction xs arbitrary: c) (simp_all add: calls_Cons del: calls.simps(2))

lemma length_calls: "length (fst (calls xs c)) = length xs"
  by (induction xs arbitrary: c) (simp_all add: calls_Cons del: calls.simps(2))

lemma calls_nth:
  "i < length xs \<Longrightarrow> fst (calls xs c) ! i = fst (call (xs ! i) (snd (calls (take i xs) c)))"
proof (induction xs arbitrary: c i)
  case Nil
  then show ?case by simp
next
  case (Cons x xs)
  show ?case
  proof (cases i)
    case 0
    then show ?thesis by (simp add: calls_Cons del: calls.simps(2))
  next
    case (Suc j)
    with Cons.prems have "j < length xs" by simp
    from Cons.IH [OF this] Suc show ?thesis
      by (simp add: calls_Cons del: calls.simps(2))
  qed
qed

lemma program_absent_after_calls:
  "OpReset \<notin> set xs \<Longrightarrow>
   deref_program (snd (calls xs c)) k = None \<longleftrightarrow>
     deref_program c k = None \<and> OpGetOrInsertProgram k \<notin> set xs"
proof (induction xs arbitrary: c)
  case Nil
  then show ?case by simp
next
  case (Cons x xs)
  from Cons.prems have nr: "x \<noteq> OpReset" "OpReset \<notin> set xs" by auto
  have "deref_program (snd (calls (x # xs) c)) k = deref_program (snd (calls xs (snd (call x c)))) k"
    by (simp add: calls_Cons del: calls.simps(2))
  also have "\<dots> = None \<longleftrightarrow>
      deref_program (snd (call x c)) k = None \<and> OpGetOrInsertProgram k \<notin> set xs"
    by (rule Cons.IH [OF nr(2)])
  finally show ?case
    using nr(1) by (auto simp: deref_program_call)
qed

lemma kernel_absent_after_calls:
  "OpReset \<notin> set xs \<Longrightarrow>
   deref_kernel (snd (calls xs c)) (p, n) = None \<longleftrightarrow>
     deref_kernel c (p, n) = None \<and> OpGetOrInsertKernel p n \<notin> set xs"
proof (induction xs arbitrary: c)
  case Nil
  then show ?case by simp
next
  case (Cons x xs)
  from Cons.prems have nr: "x \<noteq> OpReset" "OpReset \<notin> set xs" by auto
  have "deref_kernel (snd (calls (x # xs) c)) (p, n) =
        deref_kernel (snd (calls xs (snd (call x c)))) (p, n)"
    by (simp add: calls_Cons del: calls.simps(2))
  also have "\<dots> = None \<longleftrightarrow>
      deref_kernel (snd (call x c)) (p, n) = None \<and> OpGetOrInsertKernel p n \<notin> set xs"
    by (rule Cons.IH [OF nr(2)])
  finally show ?case
    using nr(1) by (auto simp: deref_kernel_call)
qed

lemma getOrInsertProgram_result:
  "fst (getOrInsertProgram k c) = (k, deref_program c k = None)"
  by (cases "deref_program c k")
    (simp_all add: getOrInsertProgram_absent getOrInsertProgram_present)

lemma getOrInsertKernel_result:
  "fst (getOrInsertKernel p n c) = ((p, n), deref_kernel c (p, n) = None)"
  by (cases "deref_kernel c (p, n)")
    (simp_all add: getOrInsertKernel_absent getOrInsertKernel_present)

lemma program_call_in_sequence:
  assumes "i < length xs" and "OpReset \<notin> set (take i xs)" and "xs ! i = OpGetOrInsertProgram k"
  shows "fst (calls xs c) ! i =
     RetProgram k (deref_program c k = None \<and> OpGetOrInsertProgram k \<notin> set (take i xs))"
proof -
  have "fst (calls xs c) ! i = fst (call (OpGetOrInsertProgram k) (snd (calls (take i xs) c)))"
    using calls_nth [OF assms(1), of c] assms(3) by simp
  also have "\<dots> = RetProgram k (deref_program (snd (calls (take i xs) c)) k = None)"
    using getOrInsertProgram_result [of k "snd (calls (take i xs) c)"]
    by (simp add: call_getOrInsertProgram del: call.simps)
  finally show ?thesis
    by (simp add: program_absent_after_calls [OF assms(2)])
qed

lemma kernel_call_in_sequence:
  assumes "i < length xs" and "OpReset \<notin> set (take i xs)" and "xs ! i = OpGetOrInsertKernel p n"
  shows "fst (calls xs c) ! i =
     RetKernel (p, n) (deref_kernel c (p, n) = None \<and> OpGetOrInsertKernel p n \<notin> set (take i xs))"
proof -
  have "fst (calls xs c) ! i = fst (call (OpGetOrInsertKernel p n) (snd (calls (take i xs) c)))"
    using calls_nth [OF assms(1), of c] assms(3) by simp
  also have "\<dots> = RetKernel (p, n) (deref_kernel (snd (calls (take i xs) c)) (p, n) = None)"
    using getOrInsertKernel_result [of p n "snd (calls (take i xs) c)"]
    by (simp add: call_getOrInsertKernel del: call.simps)
  finally show ?thesis
    by (simp add: kernel_absent_after_calls [OF assms(2)])
qed
subsection \<open>Get-or-insert\<close>

text \<open>
  C1. When an entry for the key exists, \<^verbatim>\<open>getOrInsertProgram\<close> returns the address of that
  entry with the flag false and leaves the cache as it was. When none exists it returns the
  flag true and the address of a new entry, which is in state \<^verbatim>\<open>BS_InProgress\<close> with a null
  \<^verbatim>\<open>Ptr\<close>. \<^verbatim>\<open>getOrInsertKernel\<close> does the same for a pair of a program and a kernel name. In
  a sequence of calls, a get-or-insert call with no \<^verbatim>\<open>reset\<close> before it returns the flag
  true exactly when the key was absent at the start and no earlier call of the sequence asked
  for the same key: of the calls for one key, only the first can see true.
\<close>

theorem getOrInsert_fresh_only_first:
  "(\<forall>BR. deref_program c k = Some BR \<longrightarrow>
      getOrInsertProgram k c = ((k, False), c) \<and>
      deref_program (snd (getOrInsertProgram k c)) (fst (fst (getOrInsertProgram k c))) = Some BR) \<and>
   (deref_program c k = None \<longrightarrow>
      fst (getOrInsertProgram k c) = (k, True) \<and>
      deref_program (snd (getOrInsertProgram k c)) (fst (fst (getOrInsertProgram k c))) =
        Some \<lparr>Ptr = nullptr, Val = None, State = BS_InProgress, Error = \<lparr>Msg = [], Code = 0\<rparr>\<rparr>) \<and>
   (\<forall>BR. deref_kernel c (p, n) = Some BR \<longrightarrow>
      getOrInsertKernel p n c = (((p, n), False), c) \<and>
      deref_kernel (snd (getOrInsertKernel p n c)) (fst (fst (getOrInsertKernel p n c))) = Some BR) \<and>
   (deref_kernel c (p, n) = None \<longrightarrow>
      fst (getOrInsertKernel p n c) = ((p, n), True) \<and>
      deref_kernel (snd (getOrInsertKernel p n c)) (fst (fst (getOrInsertKernel p n c))) =
        Some \<lparr>Ptr = nullptr, Val = None, State = BS_InProgress, Error = \<lparr>Msg = [], Code = 0\<rparr>\<rparr>) \<and>
   (\<forall>i < length xs. OpReset \<notin> set (take i xs) \<longrightarrow> xs ! i = OpGetOrInsertProgram k \<longrightarrow>
      fst (calls xs c) ! i =
        RetProgram k (deref_program c k = None \<and> OpGetOrInsertProgram k \<notin> set (take i xs))) \<and>
   (\<forall>i < length xs. OpReset \<notin> set (take i xs) \<longrightarrow> xs ! i = OpGetOrInsertKernel p n \<longrightarrow>
      fst (calls xs c) ! i =
        RetKernel (p, n) (deref_kernel c (p, n) = None \<and> OpGetOrInsertKernel p n \<notin> set (take i xs)))"
proof (intro conjI allI impI)
  fix BR assume ex: "deref_program c k = Some BR"
  then show "getOrInsertProgram k c = ((k, False), c)"
    by (rule getOrInsertProgram_present)
  with ex show
    "deref_program (snd (getOrInsertProgram k c)) (fst (fst (getOrInsertProgram k c))) = Some BR"
    by simp
next
  assume "deref_program c k = None"
  then show "fst (getOrInsertProgram k c) = (k, True)"
    and "deref_program (snd (getOrInsertProgram k c)) (fst (fst (getOrInsertProgram k c))) =
        Some \<lparr>Ptr = nullptr, Val = None, State = BS_InProgress, Error = \<lparr>Msg = [], Code = 0\<rparr>\<rparr>"
    by (simp_all add: getOrInsertProgram_result deref_program_getOrInsertProgram
        BuildResult_ctor_def)
next
  fix BR assume ex: "deref_kernel c (p, n) = Some BR"
  then show "getOrInsertKernel p n c = (((p, n), False), c)"
    by (rule getOrInsertKernel_present)
  with ex show
    "deref_kernel (snd (getOrInsertKernel p n c)) (fst (fst (getOrInsertKernel p n c))) = Some BR"
    by simp
next
  assume "deref_kernel c (p, n) = None"
  then show "fst (getOrInsertKernel p n c) = ((p, n), True)"
    and "deref_kernel (snd (getOrInsertKernel p n c)) (fst (fst (getOrInsertKernel p n c))) =
        Some \<lparr>Ptr = nullptr, Val = None, State = BS_InProgress, Error = \<lparr>Msg = [], Code = 0\<rparr>\<rparr>"
    by (simp_all add: getOrInsertKernel_result deref_kernel_getOrInsertKernel
        BuildResult_ctor_def)
next
  fix i
  assume "i < length xs" "OpReset \<notin> set (take i xs)" "xs ! i = OpGetOrInsertProgram k"
  then show "fst (calls xs c) ! i =
      RetProgram k (deref_program c k = None \<and> OpGetOrInsertProgram k \<notin> set (take i xs))"
    by (rule program_call_in_sequence)
next
  fix i
  assume "i < length xs" "OpReset \<notin> set (take i xs)" "xs ! i = OpGetOrInsertKernel p n"
  then show "fst (calls xs c) ! i =
      RetKernel (p, n) (deref_kernel c (p, n) = None \<and> OpGetOrInsertKernel p n \<notin> set (take i xs))"
    by (rule kernel_call_in_sequence)
qed

theorem getOrInsert_fresh_only_first_witness:
  "deref_program (KernelProgramCache_new nullptr) (([1, 2], 7), (Addr 1, ''-O2'')) = None \<and>
   deref_kernel (KernelProgramCache_new nullptr) (Addr 5, ''axpy'') = None \<and>
   fst (getOrInsertProgram (([1, 2], 7), (Addr 1, ''-O2'')) (KernelProgramCache_new nullptr)) =
     ((([1, 2], 7), (Addr 1, ''-O2'')), True) \<and>
   fst (getOrInsertKernel (Addr 5) ''axpy'' (KernelProgramCache_new nullptr)) =
     ((Addr 5, ''axpy''), True) \<and>
   fst (calls [OpGetOrInsertProgram (([1, 2], 7), (Addr 1, ''-O2'')),
               OpGetOrInsertKernel (Addr 5) ''axpy'',
               OpGetOrInsertProgram (([1, 2], 7), (Addr 1, ''-O2'')),
               OpGetOrInsertKernel (Addr 5) ''axpy'']
          (KernelProgramCache_new nullptr)) ! 0 =
     RetProgram (([1, 2], 7), (Addr 1, ''-O2'')) True \<and>
   fst (calls [OpGetOrInsertProgram (([1, 2], 7), (Addr 1, ''-O2'')),
               OpGetOrInsertKernel (Addr 5) ''axpy'',
               OpGetOrInsertProgram (([1, 2], 7), (Addr 1, ''-O2'')),
               OpGetOrInsertKernel (Addr 5) ''axpy'']
          (KernelProgramCache_new nullptr)) ! Suc (Suc 0) =
     RetProgram (([1, 2], 7), (Addr 1, ''-O2'')) False \<and>
   fst (calls [OpGetOrInsertProgram (([1, 2], 7), (Addr 1, ''-O2'')),
               OpGetOrInsertKernel (Addr 5) ''axpy'',
               OpGetOrInsertProgram (([1, 2], 7), (Addr 1, ''-O2'')),
               OpGetOrInsertKernel (Addr 5) ''axpy'']
          (KernelProgramCache_new nullptr)) ! Suc (Suc (Suc 0)) =
     RetKernel (Addr 5, ''axpy'') False"
proof -
  let ?c = "KernelProgramCache_new nullptr"
  let ?k = "(([1, 2], 7), (Addr 1, ''-O2'')) :: ProgramCacheKeyT"
  let ?xs = "[OpGetOrInsertProgram ?k, OpGetOrInsertKernel (Addr 5) ''axpy'',
              OpGetOrInsertProgram ?k, OpGetOrInsertKernel (Addr 5) ''axpy'']"
  note t = getOrInsert_fresh_only_first [of ?c ?k "Addr 5" "''axpy''" ?xs]
  have absent: "deref_program ?c ?k = None" "deref_kernel ?c (Addr 5, ''axpy'') = None"
    by simp_all
  have first: "fst (calls ?xs ?c) ! 0 = RetProgram ?k True"
    using t absent by simp
  have third: "fst (calls ?xs ?c) ! Suc (Suc 0) = RetProgram ?k False"
  proof -
    from t have
      "Suc (Suc 0) < length ?xs \<longrightarrow> OpReset \<notin> set (take (Suc (Suc 0)) ?xs) \<longrightarrow>
       ?xs ! Suc (Suc 0) = OpGetOrInsertProgram ?k \<longrightarrow>
       fst (calls ?xs ?c) ! Suc (Suc 0) =
         RetProgram ?k (deref_program ?c ?k = None \<and>
                        OpGetOrInsertProgram ?k \<notin> set (take (Suc (Suc 0)) ?xs))"
      by blast
    then show ?thesis by simp
  qed
  have fourth: "fst (calls ?xs ?c) ! Suc (Suc (Suc 0)) = RetKernel (Addr 5, ''axpy'') False"
  proof -
    from t have
      "Suc (Suc (Suc 0)) < length ?xs \<longrightarrow> OpReset \<notin> set (take (Suc (Suc (Suc 0))) ?xs) \<longrightarrow>
       ?xs ! Suc (Suc (Suc 0)) = OpGetOrInsertKernel (Addr 5) ''axpy'' \<longrightarrow>
       fst (calls ?xs ?c) ! Suc (Suc (Suc 0)) =
         RetKernel (Addr 5, ''axpy'') (deref_kernel ?c (Addr 5, ''axpy'') = None \<and>
                        OpGetOrInsertKernel (Addr 5) ''axpy'' \<notin> set (take (Suc (Suc (Suc 0))) ?xs))"
      by blast
    then show ?thesis by simp
  qed
  from t absent have "fst (getOrInsertProgram ?k ?c) = (?k, True)"
    and "fst (getOrInsertKernel (Addr 5) ''axpy'' ?c) = ((Addr 5, ''axpy''), True)"
    by blast+
  with absent first third fourth show ?thesis by blast
qed

text \<open>
  C7. A call of \<^verbatim>\<open>getOrInsertProgram\<close> that inserts its key appends one pair to
  \<^verbatim>\<open>KeyMap\<close>: the common key, which is the module identity token and the device of the key,
  mapped to the key. A call that finds its key leaves \<^verbatim>\<open>KeyMap\<close> as it was.
\<close>

theorem getOrInsertProgram_KeyMap:
  "(deref_program c k = None \<longrightarrow>
      KeyMap (MCachedPrograms (snd (getOrInsertProgram k c))) =
        KeyMap (MCachedPrograms c) @ [(CommonKey k, k)]) \<and>
   (\<forall>BR. deref_program c k = Some BR \<longrightarrow>
      KeyMap (MCachedPrograms (snd (getOrInsertProgram k c))) = KeyMap (MCachedPrograms c)) \<and>
   CommonKey ((obj, token), (dev, opts)) = (token, dev)"
  by (simp add: getOrInsertProgram_absent getOrInsertProgram_present CommonKey_def)

theorem getOrInsertProgram_KeyMap_witness:
  "deref_program (KernelProgramCache_new nullptr) (([1, 2], 7), (Addr 1, ''-O2'')) = None \<and>
   KeyMap (MCachedPrograms
     (snd (getOrInsertProgram (([1, 2], 7), (Addr 1, ''-O2'')) (KernelProgramCache_new nullptr)))) =
     [((7, Addr 1), (([1, 2], 7), (Addr 1, ''-O2'')))] \<and>
   deref_program
     (snd (getOrInsertProgram (([1, 2], 7), (Addr 1, ''-O2'')) (KernelProgramCache_new nullptr)))
     (([1, 2], 7), (Addr 1, ''-O2'')) = Some (BuildResult_ctor nullptr BS_InProgress) \<and>
   KeyMap (MCachedPrograms
     (snd (getOrInsertProgram (([1, 2], 7), (Addr 1, ''-O2''))
       (snd (getOrInsertProgram (([1, 2], 7), (Addr 1, ''-O2'')) (KernelProgramCache_new nullptr)))))) =
     [((7, Addr 1), (([1, 2], 7), (Addr 1, ''-O2'')))]"
proof -
  let ?c = "KernelProgramCache_new nullptr"
  let ?k = "(([1, 2], 7), (Addr 1, ''-O2'')) :: ProgramCacheKeyT"
  let ?c1 = "snd (getOrInsertProgram ?k ?c)"
  have absent: "deref_program ?c ?k = None" by simp
  have present: "deref_program ?c1 ?k = Some (BuildResult_ctor nullptr BS_InProgress)"
    by (simp add: deref_program_getOrInsertProgram)
  have empty: "KeyMap (MCachedPrograms ?c) = []"
    by (simp add: KernelProgramCache_new_def ProgramCache_empty_def)
  from getOrInsertProgram_KeyMap [of ?c ?k "[1, 2]" 7 "Addr 1" "''-O2''"] absent empty
  have one: "KeyMap (MCachedPrograms ?c1) = [((7, Addr 1), ?k)]"
    by simp
  from getOrInsertProgram_KeyMap [of ?c1 ?k] present one
  have "KeyMap (MCachedPrograms (snd (getOrInsertProgram ?k ?c1))) = [((7, Addr 1), ?k)]"
    by simp
  with absent one present show ?thesis by blast
qed

text \<open>
  C8. Two program cache keys with the same module bytes, identity token and device but
  different build options are different keys: when neither is in the cache, requesting one
  and then the other inserts both, each call returns the flag true and the address of its
  own entry, and afterwards the cache holds the two entries next to the ones it had.
\<close>

theorem getOrInsertProgram_options_distinguish:
  assumes "opts1 \<noteq> opts2"
    and "deref_program c ((obj, token), (dev, opts1)) = None"
    and "deref_program c ((obj, token), (dev, opts2)) = None"
  shows
    "fst (getOrInsertProgram ((obj, token), (dev, opts1)) c) = (((obj, token), (dev, opts1)), True) \<and>
     fst (getOrInsertProgram ((obj, token), (dev, opts2))
            (snd (getOrInsertProgram ((obj, token), (dev, opts1)) c))) =
       (((obj, token), (dev, opts2)), True) \<and>
     fst (fst (getOrInsertProgram ((obj, token), (dev, opts1)) c)) \<noteq>
       fst (fst (getOrInsertProgram ((obj, token), (dev, opts2))
            (snd (getOrInsertProgram ((obj, token), (dev, opts1)) c)))) \<and>
     dom (Cache (MCachedPrograms
        (snd (getOrInsertProgram ((obj, token), (dev, opts2))
            (snd (getOrInsertProgram ((obj, token), (dev, opts1)) c)))))) =
       insert ((obj, token), (dev, opts2))
         (insert ((obj, token), (dev, opts1)) (dom (Cache (MCachedPrograms c))))"
proof -
  let ?k1 = "((obj, token), (dev, opts1))"
  let ?k2 = "((obj, token), (dev, opts2))"
  let ?c1 = "snd (getOrInsertProgram ?k1 c)"
  have r1: "fst (getOrInsertProgram ?k1 c) = (?k1, True)"
    using assms(2) by (simp add: getOrInsertProgram_result)
  have "deref_program ?c1 ?k2 = None"
    using assms by (simp add: deref_program_getOrInsertProgram)
  then have r2: "fst (getOrInsertProgram ?k2 ?c1) = (?k2, True)"
    by (simp add: getOrInsertProgram_result)
  have "\<And>k'. (deref_program (snd (getOrInsertProgram ?k2 ?c1)) k' \<noteq> None) =
      (k' = ?k2 \<or> k' = ?k1 \<or> deref_program c k' \<noteq> None)"
    using assms by (auto simp: deref_program_getOrInsertProgram)
  then have d: "dom (Cache (MCachedPrograms (snd (getOrInsertProgram ?k2 ?c1)))) =
      insert ?k2 (insert ?k1 (dom (Cache (MCachedPrograms c))))"
    unfolding deref_program_def dom_def by blast
  from r1 r2 d assms(1) show ?thesis by simp
qed

theorem getOrInsertProgram_options_distinguish_witness:
  "''-O0'' \<noteq> ''-O2'' \<and>
   deref_program (KernelProgramCache_new nullptr) (([1, 2], 7), (Addr 1, ''-O0'')) = None \<and>
   deref_program (KernelProgramCache_new nullptr) (([1, 2], 7), (Addr 1, ''-O2'')) = None \<and>
   fst (getOrInsertProgram (([1, 2], 7), (Addr 1, ''-O2''))
          (snd (getOrInsertProgram (([1, 2], 7), (Addr 1, ''-O0'')) (KernelProgramCache_new nullptr)))) =
     ((([1, 2], 7), (Addr 1, ''-O2'')), True) \<and>
   dom (Cache (MCachedPrograms
     (snd (getOrInsertProgram (([1, 2], 7), (Addr 1, ''-O2''))
          (snd (getOrInsertProgram (([1, 2], 7), (Addr 1, ''-O0'')) (KernelProgramCache_new nullptr))))))) =
     {(([1, 2], 7), (Addr 1, ''-O2'')), (([1, 2], 7), (Addr 1, ''-O0''))}"
proof -
  have ne: "''-O0'' \<noteq> ''-O2''" by simp
  have a1: "deref_program (KernelProgramCache_new nullptr) (([1, 2], 7), (Addr 1, ''-O0'')) = None"
    and a2: "deref_program (KernelProgramCache_new nullptr) (([1, 2], 7), (Addr 1, ''-O2'')) = None"
    by simp_all
  have e: "dom (Cache (MCachedPrograms (KernelProgramCache_new nullptr))) = {}"
    by (simp add: KernelProgramCache_new_def ProgramCache_empty_def)
  from getOrInsertProgram_options_distinguish [OF ne a1 a2] e ne a1 a2
  show ?thesis by simp
qed

subsection \<open>Waiting for a build\<close>

lemma waitUntilBuilt_pred_Some:
  "waitUntilBuilt_pred P obs = Some (n, b) \<longleftrightarrow>
     n < length obs \<and> obs ! n = b \<and> P b \<and> (\<forall>j < n. \<not> P (obs ! j))"
proof (induction obs arbitrary: n)
  case Nil
  then show ?case by simp
next
  case (Cons a obs)
  show ?case
  proof (cases "P a")
    case True
    then show ?thesis by (cases n) auto
  next
    case False
    show ?thesis
    proof (cases n)
      case 0
      with False show ?thesis by (auto split: option.splits)
    next
      case (Suc m)
      have "(\<forall>j < Suc m. \<not> P ((a # obs) ! j)) \<longleftrightarrow> (\<forall>j < m. \<not> P (obs ! j))"
        using False by (auto simp: less_Suc_eq_0_disj)
      with False Suc Cons.IH [of m] show ?thesis
        by (auto split: option.splits)
    qed
  qed
qed

lemma waitUntilBuilt_pred_None:
  "waitUntilBuilt_pred P obs = None \<longleftrightarrow> (\<forall>b \<in> set obs. \<not> P b)"
  by (induction obs) (auto split: option.splits)

lemma waitUntilBuilt_ready:
  "State BR = BS_Done \<or> State BR = BS_Failed \<Longrightarrow>
   waitUntilBuilt E (BR # later) =
     Some (0, if isFilledIn (Error BR)
              then Inl (E (Msg (Error BR)) (Code (Error BR)))
              else Inr (Ptr BR))"
  by (auto simp: waitUntilBuilt_def)

lemma waitUntilBuilt_Some:
  "waitUntilBuilt E obs = Some (n, r) \<longleftrightarrow>
     n < length obs \<and>
     (State (obs ! n) = BS_Done \<or> State (obs ! n) = BS_Failed) \<and>
     (\<forall>j < n. State (obs ! j) = BS_InProgress) \<and>
     r = (if isFilledIn (Error (obs ! n))
          then Inl (E (Msg (Error (obs ! n))) (Code (Error (obs ! n))))
          else Inr (Ptr (obs ! n)))"
proof -
  have ip: "\<And>s. (s \<noteq> BS_Done \<and> s \<noteq> BS_Failed) = (s = BS_InProgress)"
    by (case_tac s) simp_all
  show ?thesis
  proof (cases "waitUntilBuilt_pred (\<lambda>BR. State BR = BS_Done \<or> State BR = BS_Failed) obs")
    case None
    then have "\<forall>b \<in> set obs. State b = BS_InProgress"
      by (simp add: waitUntilBuilt_pred_None ip)
    then have "n < length obs \<Longrightarrow> State (obs ! n) = BS_InProgress"
      by simp
    with None show ?thesis
      by (auto simp: waitUntilBuilt_def)
  next
    case (Some nb)
    obtain m b where nb: "nb = (m, b)" by (cases nb)
    from Some nb have
      m: "m < length obs" "obs ! m = b" "State b = BS_Done \<or> State b = BS_Failed"
        "\<forall>j < m. State (obs ! j) = BS_InProgress"
      by (simp_all add: waitUntilBuilt_pred_Some ip)
    have "n = m" if "n < length obs" "State (obs ! n) = BS_Done \<or> State (obs ! n) = BS_Failed"
      "\<forall>j < n. State (obs ! j) = BS_InProgress"
    proof (rule ccontr)
      assume "n \<noteq> m"
      then consider "n < m" | "m < n" by linarith
      then show False
      proof cases
        case 1
        with m(4) that(2) show False by auto
      next
        case 2
        with that(3) m(2,3) show False by auto
      qed
    qed
    with Some nb m show ?thesis
      by (auto simp: waitUntilBuilt_def)
  qed
qed

lemma waitUntilBuilt_after_wait:
  assumes "\<forall>b \<in> set pre. State b = BS_InProgress"
    and "State BR = BS_Done \<or> State BR = BS_Failed"
  shows "waitUntilBuilt E (pre @ BR # later) =
     Some (length pre, if isFilledIn (Error BR)
                       then Inl (E (Msg (Error BR)) (Code (Error BR)))
                       else Inr (Ptr BR))"
proof -
  have "\<forall>j < length pre. State ((pre @ BR # later) ! j) = BS_InProgress"
    using assms(1) by (simp add: nth_append)
  with assms(2) show ?thesis
    by (simp add: waitUntilBuilt_Some nth_append)
qed




text \<open>
  C3. A waiter that finds the entry in state \<^verbatim>\<open>BS_Done\<close> or \<^verbatim>\<open>BS_Failed\<close> when it calls
  \<^verbatim>\<open>waitUntilBuilt\<close> returns or throws without blocking once. In general the predicate is
  evaluated at the call and after every wake-up: the waiter blocks exactly while it sees
  \<^verbatim>\<open>BS_InProgress\<close> and leaves at the first evaluation that sees a finished entry, so it
  returns whenever one of its evaluations sees a finished entry.
\<close>

theorem waitUntilBuilt_no_missed_wakeup:
  "(State BR = BS_Done \<or> State BR = BS_Failed \<longrightarrow>
      waitUntilBuilt E (BR # later) =
        Some (0, if isFilledIn (Error BR)
                 then Inl (E (Msg (Error BR)) (Code (Error BR)))
                 else Inr (Ptr BR))) \<and>
   (\<forall>n r. waitUntilBuilt E obs = Some (n, r) \<longrightarrow>
      n < length obs \<and>
      (State (obs ! n) = BS_Done \<or> State (obs ! n) = BS_Failed) \<and>
      (\<forall>j < n. State (obs ! j) = BS_InProgress)) \<and>
   ((\<exists>b \<in> set obs. State b = BS_Done \<or> State b = BS_Failed) \<longrightarrow>
      (\<exists>n r. waitUntilBuilt E obs = Some (n, r)))"
proof -
  have ready: "State BR = BS_Done \<or> State BR = BS_Failed \<longrightarrow>
      waitUntilBuilt E (BR # later) =
        Some (0, if isFilledIn (Error BR)
                 then Inl (E (Msg (Error BR)) (Code (Error BR)))
                 else Inr (Ptr BR))"
    by (simp add: waitUntilBuilt_ready)
  have leaves: "\<forall>n r. waitUntilBuilt E obs = Some (n, r) \<longrightarrow>
      n < length obs \<and>
      (State (obs ! n) = BS_Done \<or> State (obs ! n) = BS_Failed) \<and>
      (\<forall>j < n. State (obs ! j) = BS_InProgress)"
    by (simp add: waitUntilBuilt_Some)
  have returns: "(\<exists>b \<in> set obs. State b = BS_Done \<or> State b = BS_Failed) \<longrightarrow>
      (\<exists>n r. waitUntilBuilt E obs = Some (n, r))"
  proof
    assume "\<exists>b \<in> set obs. State b = BS_Done \<or> State b = BS_Failed"
    then have "waitUntilBuilt_pred (\<lambda>BR. State BR = BS_Done \<or> State BR = BS_Failed) obs \<noteq> None"
      by (simp add: waitUntilBuilt_pred_None)
    then show "\<exists>n r. waitUntilBuilt E obs = Some (n, r)"
      by (auto simp: waitUntilBuilt_def)
  qed
  from ready leaves returns show ?thesis by blast
qed

theorem waitUntilBuilt_no_missed_wakeup_witness:
  "State \<lparr>Ptr = Addr 4, Val = Some (Addr 9 :: PiProgram), State = BS_Done,
          Error = \<lparr>Msg = [], Code = 0\<rparr>\<rparr> = BS_Done \<and>
   waitUntilBuilt Pair
     [\<lparr>Ptr = Addr 4, Val = Some (Addr 9 :: PiProgram), State = BS_Done,
       Error = \<lparr>Msg = [], Code = 0\<rparr>\<rparr>] = Some (0, Inr (Addr 4)) \<and>
   waitUntilBuilt Pair
     [\<lparr>Ptr = nullptr, Val = (None :: PiProgram option), State = BS_InProgress,
       Error = \<lparr>Msg = [], Code = 0\<rparr>\<rparr>,
      \<lparr>Ptr = Addr 4, Val = Some (Addr 9), State = BS_Done,
       Error = \<lparr>Msg = [], Code = 0\<rparr>\<rparr>] = Some (Suc 0, Inr (Addr 4)) \<and>
   waitUntilBuilt Pair
     [\<lparr>Ptr = nullptr, Val = (None :: PiProgram option), State = BS_InProgress,
       Error = \<lparr>Msg = [], Code = 0\<rparr>\<rparr>] = None"
proof -
  let ?ip = "\<lparr>Ptr = nullptr, Val = (None :: PiProgram option), State = BS_InProgress,
       Error = \<lparr>Msg = [], Code = 0\<rparr>\<rparr>"
  let ?done = "\<lparr>Ptr = Addr 4, Val = Some (Addr 9 :: PiProgram), State = BS_Done,
       Error = \<lparr>Msg = [], Code = 0\<rparr>\<rparr>"
  note t = waitUntilBuilt_no_missed_wakeup [of ?done Pair "[]" "[?ip, ?done]"]
  from t have a: "waitUntilBuilt Pair [?done] = Some (0, Inr (Addr 4))"
    by (simp add: isFilledIn_def)
  have ex: "\<exists>b \<in> set [?ip, ?done]. State b = BS_Done \<or> State b = BS_Failed"
    by simp
  with t obtain n r where nr: "waitUntilBuilt Pair [?ip, ?done] = Some (n, r)"
    by blast
  have b: "waitUntilBuilt Pair [?ip, ?done] = Some (Suc 0, Inr (Addr 4))"
    by (simp add: waitUntilBuilt_def isFilledIn_def)
  have c: "waitUntilBuilt Pair [?ip] = None"
    by (simp add: waitUntilBuilt_def)
  from a b c show ?thesis by simp
qed

subsection \<open>Usable pointer if and only if built\<close>

lemma entry_usable_iff_done_fresh:
  "entry_usable_iff_done (BuildResult_ctor nullptr BS_InProgress)"
  by (simp add: entry_usable_iff_done_def BuildResult_ctor_def)

lemma all_entries_ok_new: "all_entries_ok (KernelProgramCache_new ctx)"
  by (simp add: all_entries_ok_def)

lemma all_entries_ok_call:
  assumes "all_entries_ok c"
  shows "all_entries_ok (snd (call x c))"
  unfolding all_entries_ok_def
proof (intro conjI allI impI)
  fix ref BR assume "deref_program (snd (call x c)) ref = Some BR"
  then have "BR = BuildResult_ctor nullptr BS_InProgress \<or> deref_program c ref = Some BR"
    by (auto simp: deref_program_call split: if_splits)
  with assms show "entry_usable_iff_done BR"
    unfolding all_entries_ok_def using entry_usable_iff_done_fresh by blast
next
  fix ref BR assume "deref_kernel (snd (call x c)) ref = Some BR"
  then have "BR = BuildResult_ctor nullptr BS_InProgress \<or> deref_kernel c ref = Some BR"
    by (auto simp: deref_kernel_call split: if_splits)
  with assms show "entry_usable_iff_done BR"
    unfolding all_entries_ok_def using entry_usable_iff_done_fresh by blast
qed

lemma all_entries_ok_calls:
  "all_entries_ok c \<Longrightarrow> all_entries_ok (snd (calls xs c))"
  by (induction xs arbitrary: c) (simp_all add: calls_Cons all_entries_ok_call del: calls.simps(2))

lemma publish_success_usable:
  "publish_success v a BR = Inr BR' \<Longrightarrow> entry_usable_iff_done BR'"
  by (auto simp: publish_success_def entry_usable_iff_done_def split: if_splits)

lemma publish_failure_usable:
  "entry_usable_iff_done BR \<Longrightarrow> publish_failure message code BR = Inr BR' \<Longrightarrow>
   entry_usable_iff_done BR'"
  by (auto simp: publish_failure_def entry_usable_iff_done_def split: if_splits)

lemma update_program_entries:
  assumes "update_program ref f c = Inr c'"
  shows "\<exists>BR BR'. deref_program c ref = Some BR \<and> f BR = Inr BR' \<and>
    (\<forall>k. deref_program c' k = (if k = ref then Some BR' else deref_program c k)) \<and>
    (\<forall>r. deref_kernel c' r = deref_kernel c r)"
proof -
  from assms obtain BR BR' where 1: "deref_program c ref = Some BR" and 2: "f BR = Inr BR'"
    and c': "c' = c\<lparr>MCachedPrograms :=
               (MCachedPrograms c)\<lparr>Cache := (Cache (MCachedPrograms c))(ref \<mapsto> BR')\<rparr>\<rparr>"
    by (auto simp: update_program_def split: option.splits sum.splits)
  have "\<And>k. deref_program c' k = (if k = ref then Some BR' else deref_program c k)"
    by (simp add: c' deref_program_def)
  moreover have "\<And>r. deref_kernel c' r = deref_kernel c r"
    by (simp add: c' deref_kernel_def)
  ultimately show ?thesis using 1 2 by blast
qed

lemma update_kernel_entries:
  assumes "update_kernel ref f c = Inr c'"
  shows "\<exists>BR BR'. deref_kernel c ref = Some BR \<and> f BR = Inr BR' \<and>
    (\<forall>r. deref_kernel c' r = (if r = ref then Some BR' else deref_kernel c r)) \<and>
    (\<forall>k. deref_program c' k = deref_program c k)"
proof -
  from assms obtain byName BR BR' where o: "MKernelsPerProgramCache c (fst ref) = Some byName"
    and i: "byName (snd ref) = Some BR" and 2: "f BR = Inr BR'"
    and c': "c' = c\<lparr>MKernelsPerProgramCache :=
               (MKernelsPerProgramCache c)(fst ref \<mapsto> byName(snd ref \<mapsto> BR'))\<rparr>"
    by (auto simp: update_kernel_def split: option.splits sum.splits)
  from o i have 1: "deref_kernel c ref = Some BR"
    by (simp add: deref_kernel_def)
  have "\<And>r. deref_kernel c' r = (if r = ref then Some BR' else deref_kernel c r)"
    using o by (auto simp: c' deref_kernel_def prod_eq_iff)
  moreover have "\<And>k. deref_program c' k = deref_program c k"
    by (simp add: c' deref_program_def)
  ultimately show ?thesis using 1 2 by blast
qed

lemma all_entries_ok_program:
  "all_entries_ok c \<Longrightarrow> deref_program c ref = Some BR \<Longrightarrow> entry_usable_iff_done BR"
  unfolding all_entries_ok_def by blast

lemma all_entries_ok_kernel:
  "all_entries_ok c \<Longrightarrow> deref_kernel c ref = Some BR \<Longrightarrow> entry_usable_iff_done BR"
  unfolding all_entries_ok_def by blast

lemma all_entries_ok_update_program:
  assumes "all_entries_ok c" and "update_program ref f c = Inr c'"
    and "\<And>BR BR'. entry_usable_iff_done BR \<Longrightarrow> f BR = Inr BR' \<Longrightarrow> entry_usable_iff_done BR'"
  shows "all_entries_ok c'"
proof -
  from assms(2) obtain BR BR' where *: "deref_program c ref = Some BR" "f BR = Inr BR'"
    "\<And>k. deref_program c' k = (if k = ref then Some BR' else deref_program c k)"
    "\<And>r. deref_kernel c' r = deref_kernel c r"
    using update_program_entries by blast
  from assms(1) *(1) have "entry_usable_iff_done BR"
    by (rule all_entries_ok_program)
  with assms(3) *(2) have ok: "entry_usable_iff_done BR'"
    by blast
  show ?thesis
    unfolding all_entries_ok_def
  proof (intro conjI allI impI)
    fix k B assume "deref_program c' k = Some B"
    with *(3) have "B = BR' \<or> deref_program c k = Some B"
      by (simp split: if_splits)
    with ok assms(1) show "entry_usable_iff_done B"
      using all_entries_ok_program by blast
  next
    fix r B assume "deref_kernel c' r = Some B"
    with *(4) have "deref_kernel c r = Some B"
      by simp
    with assms(1) show "entry_usable_iff_done B"
      by (rule all_entries_ok_kernel)
  qed
qed

lemma all_entries_ok_update_kernel:
  assumes "all_entries_ok c" and "update_kernel ref f c = Inr c'"
    and "\<And>BR BR'. entry_usable_iff_done BR \<Longrightarrow> f BR = Inr BR' \<Longrightarrow> entry_usable_iff_done BR'"
  shows "all_entries_ok c'"
proof -
  from assms(2) obtain BR BR' where *: "deref_kernel c ref = Some BR" "f BR = Inr BR'"
    "\<And>r. deref_kernel c' r = (if r = ref then Some BR' else deref_kernel c r)"
    "\<And>k. deref_program c' k = deref_program c k"
    using update_kernel_entries by blast
  from assms(1) *(1) have "entry_usable_iff_done BR"
    by (rule all_entries_ok_kernel)
  with assms(3) *(2) have ok: "entry_usable_iff_done BR'"
    by blast
  show ?thesis
    unfolding all_entries_ok_def
  proof (intro conjI allI impI)
    fix k B assume "deref_program c' k = Some B"
    with *(4) have "deref_program c k = Some B"
      by simp
    with assms(1) show "entry_usable_iff_done B"
      by (rule all_entries_ok_program)
  next
    fix r B assume "deref_kernel c' r = Some B"
    with *(3) have "B = BR' \<or> deref_kernel c r = Some B"
      by (simp split: if_splits)
    with ok assms(1) show "entry_usable_iff_done B"
      using all_entries_ok_kernel by blast
  qed
qed

lemma all_entries_ok_client_call:
  assumes "all_entries_ok c" and "client_call y c = Inr c'"
  shows "all_entries_ok c'"
proof (cases y)
  case (Member x)
  with assms show ?thesis
    by (auto simp: all_entries_ok_call)
next
  case (ProgramBuilt ref v a)
  with assms show ?thesis
    by (auto elim: all_entries_ok_update_program simp: publish_success_usable)
next
  case (ProgramFailed ref message code)
  with assms show ?thesis
    by (auto elim!: all_entries_ok_update_program intro: publish_failure_usable)
next
  case (KernelBuilt ref v a)
  with assms show ?thesis
    by (auto elim: all_entries_ok_update_kernel simp: publish_success_usable)
next
  case (KernelFailed ref message code)
  with assms show ?thesis
    by (auto elim!: all_entries_ok_update_kernel intro: publish_failure_usable)
qed

lemma all_entries_ok_client_calls:
  "all_entries_ok c \<Longrightarrow> client_calls ys c = Inr c' \<Longrightarrow> all_entries_ok c'"
proof (induction ys arbitrary: c)
  case Nil
  then show ?case by simp
next
  case (Cons y ys)
  from Cons.prems(2) obtain c1 where 1: "client_call y c = Inr c1" and 2: "client_calls ys c1 = Inr c'"
    by (auto split: sum.splits)
  from Cons.prems(1) 1 have "all_entries_ok c1"
    by (rule all_entries_ok_client_call)
  from Cons.IH [OF this 2] show ?case .
qed

lemma waitUntilBuilt_usable:
  assumes "entry_usable_iff_done BR" and "State BR = BS_Done" and "\<not> isFilledIn (Error BR)"
    and "\<forall>b \<in> set pre. State b = BS_InProgress"
  shows "\<exists>a. Ptr BR = Addr a \<and> waitUntilBuilt E (pre @ BR # later) = Some (length pre, Inr (Addr a))"
proof -
  from assms(1,2) have "Ptr BR \<noteq> nullptr"
    by (simp add: entry_usable_iff_done_def)
  then obtain a where "Ptr BR = Addr a"
    by (cases "Ptr BR") simp_all
  with assms(2,3) waitUntilBuilt_after_wait [OF assms(4), of BR E later] show ?thesis
    by simp
qed

text \<open>
  C4. The pointer of an entry is non-null exactly when its state is \<^verbatim>\<open>BS_Done\<close>. A newly
  constructed entry has a null pointer and state \<^verbatim>\<open>BS_InProgress\<close> and so satisfies this;
  so does every entry of a new cache object. Every member function keeps it true of all
  entries of the program cache and of the kernel cache, and so does publishing a success or
  a failure on an entry: it holds after every sequence of member-function calls and
  publications that a user runs on a new cache. Every waiter on an entry of such a cache
  that is in state \<^verbatim>\<open>BS_Done\<close> with no error filled in, however often it blocked before,
  gets the entry's pointer from \<^verbatim>\<open>waitUntilBuilt\<close>, and that pointer is not null.
\<close>

theorem usable_iff_done_invariant:
  "entry_usable_iff_done
     (\<lparr>Ptr = nullptr, Val = None, State = BS_InProgress, Error = \<lparr>Msg = [], Code = 0\<rparr>\<rparr>
        :: 'T BuildResult) \<and>
   (BuildResult_ctor nullptr BS_InProgress :: 'T BuildResult) =
     \<lparr>Ptr = nullptr, Val = None, State = BS_InProgress, Error = \<lparr>Msg = [], Code = 0\<rparr>\<rparr> \<and>
   all_entries_ok (KernelProgramCache_new ctx) \<and>
   (all_entries_ok c \<longrightarrow> all_entries_ok (snd (call x c))) \<and>
   (all_entries_ok c \<longrightarrow> all_entries_ok (snd (calls xs c))) \<and>
   (\<forall>c'. all_entries_ok c \<and> client_call y c = Inr c' \<longrightarrow> all_entries_ok c') \<and>
   (\<forall>c'. client_calls ys (KernelProgramCache_new ctx) = Inr c' \<longrightarrow>
      all_entries_ok c' \<and>
      (\<forall>ref BR pre later.
         deref_program c' ref = Some BR \<and> State BR = BS_Done \<and> \<not> isFilledIn (Error BR) \<and>
         (\<forall>b \<in> set pre. State b = BS_InProgress) \<longrightarrow>
         (\<exists>a. Ptr BR = Addr a \<and>
              waitUntilBuilt E (pre @ BR # later) = Some (length pre, Inr (Addr a)))) \<and>
      (\<forall>ref BR pre later.
         deref_kernel c' ref = Some BR \<and> State BR = BS_Done \<and> \<not> isFilledIn (Error BR) \<and>
         (\<forall>b \<in> set pre. State b = BS_InProgress) \<longrightarrow>
         (\<exists>a. Ptr BR = Addr a \<and>
              waitUntilBuilt E (pre @ BR # later) = Some (length pre, Inr (Addr a)))))"
proof -
  have fresh: "(BuildResult_ctor nullptr BS_InProgress :: 'T BuildResult) =
     \<lparr>Ptr = nullptr, Val = None, State = BS_InProgress, Error = \<lparr>Msg = [], Code = 0\<rparr>\<rparr>"
    by (simp add: BuildResult_ctor_def)
  have ok: "entry_usable_iff_done
     (\<lparr>Ptr = nullptr, Val = None, State = BS_InProgress, Error = \<lparr>Msg = [], Code = 0\<rparr>\<rparr>
        :: 'T BuildResult)"
    by (simp add: entry_usable_iff_done_def)
  have one: "\<forall>c'. all_entries_ok c \<and> client_call y c = Inr c' \<longrightarrow> all_entries_ok c'"
    using all_entries_ok_client_call by blast
  have reach: "all_entries_ok c'" if "client_calls ys (KernelProgramCache_new ctx) = Inr c'" for c'
    using all_entries_ok_new that by (rule all_entries_ok_client_calls)
  have prog: "\<exists>a. Ptr BR = Addr a \<and>
              waitUntilBuilt E (pre @ BR # later) = Some (length pre, Inr (Addr a))"
    if "client_calls ys (KernelProgramCache_new ctx) = Inr c'"
      and "deref_program c' ref = Some BR \<and> State BR = BS_Done \<and> \<not> isFilledIn (Error BR) \<and>
         (\<forall>b \<in> set pre. State b = BS_InProgress)"
    for c' ref and BR :: ProgramWithBuildStateT and pre later
  proof -
    from reach [OF that(1)] that(2) have "entry_usable_iff_done BR"
      using all_entries_ok_program by blast
    with that(2) show ?thesis
      by (simp add: waitUntilBuilt_usable)
  qed
  have kern: "\<exists>a. Ptr BR = Addr a \<and>
              waitUntilBuilt E (pre @ BR # later) = Some (length pre, Inr (Addr a))"
    if "client_calls ys (KernelProgramCache_new ctx) = Inr c'"
      and "deref_kernel c' ref = Some BR \<and> State BR = BS_Done \<and> \<not> isFilledIn (Error BR) \<and>
         (\<forall>b \<in> set pre. State b = BS_InProgress)"
    for c' ref and BR :: "KernelArgMaskPairT BuildResult" and pre later
  proof -
    from reach [OF that(1)] that(2) have "entry_usable_iff_done BR"
      using all_entries_ok_kernel by blast
    with that(2) show ?thesis
      by (simp add: waitUntilBuilt_usable)
  qed
  have all: "\<forall>c'. client_calls ys (KernelProgramCache_new ctx) = Inr c' \<longrightarrow>
      all_entries_ok c' \<and>
      (\<forall>ref BR pre later.
         deref_program c' ref = Some BR \<and> State BR = BS_Done \<and> \<not> isFilledIn (Error BR) \<and>
         (\<forall>b \<in> set pre. State b = BS_InProgress) \<longrightarrow>
         (\<exists>a. Ptr BR = Addr a \<and>
              waitUntilBuilt E (pre @ BR # later) = Some (length pre, Inr (Addr a)))) \<and>
      (\<forall>ref BR pre later.
         deref_kernel c' ref = Some BR \<and> State BR = BS_Done \<and> \<not> isFilledIn (Error BR) \<and>
         (\<forall>b \<in> set pre. State b = BS_InProgress) \<longrightarrow>
         (\<exists>a. Ptr BR = Addr a \<and>
              waitUntilBuilt E (pre @ BR # later) = Some (length pre, Inr (Addr a))))"
    using reach prog kern by blast
  from fresh ok one all all_entries_ok_new all_entries_ok_call all_entries_ok_calls
  show ?thesis by blast
qed

theorem usable_iff_done_invariant_witness:
  "client_calls
     [Member (OpGetOrInsertProgram (([1, 2], 7), (Addr 1, ''-O2''))),
      Member (OpGetOrInsertProgram (([1, 2], 7), (Addr 1, ''-O0''))),
      ProgramBuilt (([1, 2], 7), (Addr 1, ''-O2'')) (Addr 9) 4,
      ProgramFailed (([1, 2], 7), (Addr 1, ''-O0'')) ''bad SPIR-V'' 7]
     (KernelProgramCache_new nullptr) =
   Inr \<lparr>MCachedPrograms =
          \<lparr>Cache = [(([1, 2], 7), (Addr 1, ''-O2'')) \<mapsto>
                      \<lparr>Ptr = Addr 4, Val = Some (Addr 9), State = BS_Done,
                       Error = \<lparr>Msg = [], Code = 0\<rparr>\<rparr>,
                    (([1, 2], 7), (Addr 1, ''-O0'')) \<mapsto>
                      \<lparr>Ptr = nullptr, Val = None, State = BS_Failed,
                       Error = \<lparr>Msg = ''bad SPIR-V'', Code = 7\<rparr>\<rparr>],
           KeyMap = [((7, Addr 1), (([1, 2], 7), (Addr 1, ''-O2''))),
                     ((7, Addr 1), (([1, 2], 7), (Addr 1, ''-O0'')))]\<rparr>,
        MKernelsPerProgramCache = Map.empty, MParentContext = nullptr,
        MKernelFastCache = Map.empty\<rparr> \<and>
   all_entries_ok
     \<lparr>MCachedPrograms =
          \<lparr>Cache = [(([1, 2], 7), (Addr 1, ''-O2'')) \<mapsto>
                      \<lparr>Ptr = Addr 4, Val = Some (Addr 9), State = BS_Done,
                       Error = \<lparr>Msg = [], Code = 0\<rparr>\<rparr>,
                    (([1, 2], 7), (Addr 1, ''-O0'')) \<mapsto>
                      \<lparr>Ptr = nullptr, Val = None, State = BS_Failed,
                       Error = \<lparr>Msg = ''bad SPIR-V'', Code = 7\<rparr>\<rparr>],
           KeyMap = [((7, Addr 1), (([1, 2], 7), (Addr 1, ''-O2''))),
                     ((7, Addr 1), (([1, 2], 7), (Addr 1, ''-O0'')))]\<rparr>,
        MKernelsPerProgramCache = Map.empty, MParentContext = nullptr,
        MKernelFastCache = Map.empty\<rparr> \<and>
   waitUntilBuilt Pair
     [\<lparr>Ptr = nullptr, Val = None, State = BS_InProgress, Error = \<lparr>Msg = [], Code = 0\<rparr>\<rparr>,
      \<lparr>Ptr = Addr 4, Val = Some (Addr 9 :: PiProgram), State = BS_Done,
       Error = \<lparr>Msg = [], Code = 0\<rparr>\<rparr>] = Some (Suc 0, Inr (Addr 4))"
proof -
  let ?k2 = "(([1, 2], 7), (Addr 1, ''-O2'')) :: ProgramCacheKeyT"
  let ?k0 = "(([1, 2], 7), (Addr 1, ''-O0'')) :: ProgramCacheKeyT"
  let ?ys = "[Member (OpGetOrInsertProgram ?k2), Member (OpGetOrInsertProgram ?k0),
              ProgramBuilt ?k2 (Addr 9) 4, ProgramFailed ?k0 ''bad SPIR-V'' 7]"
  let ?ip = "\<lparr>Ptr = nullptr, Val = (None :: PiProgram option), State = BS_InProgress,
       Error = \<lparr>Msg = [], Code = 0\<rparr>\<rparr>"
  let ?done = "\<lparr>Ptr = Addr 4, Val = Some (Addr 9 :: PiProgram), State = BS_Done,
       Error = \<lparr>Msg = [], Code = 0\<rparr>\<rparr>"
  let ?failed = "\<lparr>Ptr = nullptr, Val = (None :: PiProgram option), State = BS_Failed,
       Error = \<lparr>Msg = ''bad SPIR-V'', Code = 7\<rparr>\<rparr>"
  let ?c' = "\<lparr>MCachedPrograms =
          \<lparr>Cache = [?k2 \<mapsto> ?done, ?k0 \<mapsto> ?failed],
           KeyMap = [((7, Addr 1), ?k2), ((7, Addr 1), ?k0)]\<rparr>,
        MKernelsPerProgramCache = Map.empty, MParentContext = nullptr,
        MKernelFastCache = Map.empty\<rparr>"
  have run: "client_calls ?ys (KernelProgramCache_new nullptr) = Inr ?c'"
    by (simp add: getOrInsertProgram_def acquireCachedPrograms_def emplace_def Let_def
        KernelProgramCache_new_def ProgramCache_empty_def BuildResult_ctor_def CommonKey_def
        update_program_def deref_program_def publish_success_def publish_failure_def
        fun_upd_twist)
  note t = usable_iff_done_invariant
    [where ?'T = PiProgram, of nullptr "KernelProgramCache_new nullptr" _ "[]" _ ?ys Pair]
  from t run have ok: "all_entries_ok ?c'"
    by blast
  have entry: "deref_program ?c' ?k2 = Some ?done \<and> State ?done = BS_Done \<and>
      \<not> isFilledIn (Error ?done) \<and> (\<forall>b \<in> set [?ip]. State b = BS_InProgress)"
    by (simp add: deref_program_def isFilledIn_def)
  from t run have "\<forall>ref BR pre later.
         deref_program ?c' ref = Some BR \<and> State BR = BS_Done \<and> \<not> isFilledIn (Error BR) \<and>
         (\<forall>b \<in> set pre. State b = BS_InProgress) \<longrightarrow>
         (\<exists>a. Ptr BR = Addr a \<and>
              waitUntilBuilt Pair (pre @ BR # later) = Some (length pre, Inr (Addr a)))"
    by blast
  with entry have "\<exists>a. Ptr ?done = Addr a \<and>
      waitUntilBuilt Pair ([?ip] @ ?done # []) = Some (length [?ip], Inr (Addr a))"
    by blast
  then have "waitUntilBuilt Pair [?ip, ?done] = Some (Suc 0, Inr (Addr 4))"
    by simp
  with run ok show ?thesis by blast
qed

subsection \<open>Reset\<close>

lemma reset_clears_containers:
  "Cache (MCachedPrograms (reset c)) = Map.empty \<and>
   KeyMap (MCachedPrograms (reset c)) = [] \<and>
   ProgramCache_size (MCachedPrograms (reset c)) = 0 \<and>
   MKernelsPerProgramCache (reset c) = Map.empty \<and>
   MKernelFastCache (reset c) = Map.empty \<and>
   MParentContext (reset c) = MParentContext c"
  by (simp add: reset_def ProgramCache_empty_def ProgramCache_size_def)

text \<open>Run by one thread alone, the step lists do what the member functions do.\<close>

lemma getOrInsertProgram_actions_alone:
  "map_option (\<lambda>s. ((k, local_flag s ThreadA), shared s))
     (schedule [ThreadA, ThreadA, ThreadA, ThreadA]
        (start (getOrInsertProgram_actions k) other c)) =
   Some (getOrInsertProgram k c)"
  by (simp add: start_def step_def getOrInsertProgram_actions_def getOrInsertProgram_def
      acquireCachedPrograms_def Let_def)

lemma reset_actions_alone:
  "map_option shared (schedule [ThreadB, ThreadB, ThreadB] (start other reset_actions c)) =
   Some (reset c)"
  by (simp add: start_def step_def reset_actions_def reset_def)

lemma reset_actions_as_specified_alone:
  "map_option shared
     (schedule [ThreadB, ThreadB, ThreadB, ThreadB, ThreadB, ThreadB, ThreadB, ThreadB, ThreadB]
        (start other reset_actions_as_specified c)) =
   Some (reset c)"
  by (simp add: start_def step_def reset_actions_as_specified_def reset_actions_def reset_def)

text \<open>
  C9. \<^verbatim>\<open>reset()\<close> is claimed to clear the subcaches under all three cache mutexes, taken in
  the order program cache, kernel cache, fast path. The \<^verbatim>\<open>reset\<close> of the source locks
  nothing. Thread A below calls \<^verbatim>\<open>getOrInsertProgram\<close> on a new cache and thread B calls
  \<^verbatim>\<open>reset\<close>: B's three assignments run after A's \<^verbatim>\<open>Cache.emplace\<close> and before A's
  \<^verbatim>\<open>KeyMap.emplace\<close>, while A holds \<^verbatim>\<open>MProgramCacheMutex\<close>. At the end the program cache is
  empty and \<^verbatim>\<open>KeyMap\<close> still holds a pair for the key. With the \<^verbatim>\<open>reset\<close> that the
  claim describes, thread B could not have moved at that point.
\<close>

theorem reset_runs_inside_getOrInsertProgram:
  "map_option owner
     (schedule [ThreadA, ThreadA]
        (start (getOrInsertProgram_actions (([1, 2], 7), (Addr 1, ''-O2''))) reset_actions
           (KernelProgramCache_new nullptr))) =
     Some [MProgramCacheMutex \<mapsto> ThreadA] \<and>
   map_option shared
     (schedule [ThreadA, ThreadA, ThreadB, ThreadB, ThreadB, ThreadA, ThreadA]
        (start (getOrInsertProgram_actions (([1, 2], 7), (Addr 1, ''-O2''))) reset_actions
           (KernelProgramCache_new nullptr))) =
     Some \<lparr>MCachedPrograms =
             \<lparr>Cache = Map.empty,
              KeyMap = [((7, Addr 1), (([1, 2], 7), (Addr 1, ''-O2'')))]\<rparr>,
           MKernelsPerProgramCache = Map.empty, MParentContext = nullptr,
           MKernelFastCache = Map.empty\<rparr> \<and>
   \<not> KeyMap_in_sync
       \<lparr>Cache = Map.empty, KeyMap = [((7, Addr 1), (([1, 2], 7), (Addr 1, ''-O2'')))]\<rparr> \<and>
   schedule [ThreadA, ThreadA, ThreadB]
     (start (getOrInsertProgram_actions (([1, 2], 7), (Addr 1, ''-O2'')))
        reset_actions_as_specified (KernelProgramCache_new nullptr)) = None"
proof -
  let ?k = "(([1, 2], 7), (Addr 1, ''-O2'')) :: ProgramCacheKeyT"
  have held: "map_option owner
     (schedule [ThreadA, ThreadA]
        (start (getOrInsertProgram_actions ?k) reset_actions (KernelProgramCache_new nullptr))) =
     Some [MProgramCacheMutex \<mapsto> ThreadA]"
    by (simp add: start_def step_def getOrInsertProgram_actions_def Let_def emplace_def
        KernelProgramCache_new_def ProgramCache_empty_def)
  have race: "map_option shared
     (schedule [ThreadA, ThreadA, ThreadB, ThreadB, ThreadB, ThreadA, ThreadA]
        (start (getOrInsertProgram_actions ?k) reset_actions (KernelProgramCache_new nullptr))) =
     Some \<lparr>MCachedPrograms = \<lparr>Cache = Map.empty, KeyMap = [((7, Addr 1), ?k)]\<rparr>,
           MKernelsPerProgramCache = Map.empty, MParentContext = nullptr,
           MKernelFastCache = Map.empty\<rparr>"
    by (simp add: start_def step_def getOrInsertProgram_actions_def reset_actions_def Let_def
        emplace_def KernelProgramCache_new_def ProgramCache_empty_def CommonKey_def)
  have broken: "\<not> KeyMap_in_sync \<lparr>Cache = Map.empty, KeyMap = [((7, Addr 1), ?k)]\<rparr>"
    by (simp add: KeyMap_in_sync_def)
  have blocked: "schedule [ThreadA, ThreadA, ThreadB]
     (start (getOrInsertProgram_actions ?k) reset_actions_as_specified
        (KernelProgramCache_new nullptr)) = None"
    by (simp add: start_def step_def getOrInsertProgram_actions_def
        reset_actions_as_specified_def Let_def emplace_def
        KernelProgramCache_new_def ProgramCache_empty_def)
  from held race broken blocked show ?thesis by blast
qed

subsection \<open>The secondary index follows the program cache\<close>

lemma KeyMap_in_sync_empty: "KeyMap_in_sync ProgramCache_empty"
  by (simp add: KeyMap_in_sync_def ProgramCache_empty_def)

lemma KeyMap_in_sync_getOrInsertProgram:
  assumes "KeyMap_in_sync (MCachedPrograms c)"
  shows "KeyMap_in_sync (MCachedPrograms (snd (getOrInsertProgram k c)))"
proof (cases "deref_program c k")
  case None
  then have "k \<notin> dom (Cache (MCachedPrograms c))"
    by (auto simp: deref_program_def)
  with assms have "k \<notin> snd ` set (KeyMap (MCachedPrograms c))"
    by (auto simp: KeyMap_in_sync_def)
  with assms None show ?thesis
    by (auto simp: getOrInsertProgram_absent KeyMap_in_sync_def deref_program_def)
next
  case (Some BR)
  with assms show ?thesis
    by (simp add: getOrInsertProgram_present)
qed

lemma KeyMap_getOrInsertProgram_absent:
  "deref_program c k = None \<Longrightarrow>
   KeyMap (MCachedPrograms (snd (getOrInsertProgram k c))) =
     KeyMap (MCachedPrograms c) @ [(CommonKey k, k)]"
  by (simp add: getOrInsertProgram_absent)

lemma MCachedPrograms_getOrInsertKernel:
  "MCachedPrograms (snd (getOrInsertKernel p n c)) = MCachedPrograms c"
  by (simp add: getOrInsertKernel_def acquireKernelsPerProgramCache_def Let_def
      split: prod.splits)

lemma KeyMap_in_sync_call:
  assumes "KeyMap_in_sync (MCachedPrograms c)"
  shows "KeyMap_in_sync (MCachedPrograms (snd (call x c)))"
proof (cases x)
  case (OpGetOrInsertProgram k)
  with KeyMap_in_sync_getOrInsertProgram [OF assms, of k] show ?thesis
    by (simp add: call_getOrInsertProgram del: call.simps)
next
  case (OpGetOrInsertKernel p n)
  with assms show ?thesis
    by (simp add: call_getOrInsertKernel MCachedPrograms_getOrInsertKernel del: call.simps)
next
  case OpReset
  then show ?thesis
    by (simp add: reset_def KeyMap_in_sync_empty)
qed (use assms in \<open>simp_all add: saveKernel_def setContextPtr_def\<close>)

lemma KeyMap_in_sync_calls:
  "KeyMap_in_sync (MCachedPrograms c) \<Longrightarrow> KeyMap_in_sync (MCachedPrograms (snd (calls xs c)))"
  by (induction xs arbitrary: c) (simp_all add: calls_Cons KeyMap_in_sync_call del: calls.simps(2))

lemma KeyMap_in_sync_size:
  assumes "KeyMap_in_sync PC"
  shows "length (KeyMap PC) = ProgramCache_size PC"
proof -
  from assms have d: "distinct (KeyMap PC)"
    and s: "set (KeyMap PC) = (\<lambda>k. (CommonKey k, k)) ` dom (Cache PC)"
    by (simp_all add: KeyMap_in_sync_def)
  have "inj_on (\<lambda>k. (CommonKey k, k)) (dom (Cache PC))"
    by (rule inj_onI) simp
  then have "card ((\<lambda>k. (CommonKey k, k)) ` dom (Cache PC)) = card (dom (Cache PC))"
    by (rule card_image)
  with d s show ?thesis
    by (simp add: ProgramCache_size_def distinct_card [symmetric])
qed

text \<open>
  C10. After any sequence of calls on a new cache object (\<^verbatim>\<open>getOrInsertProgram\<close>,
  \<^verbatim>\<open>reset\<close> and the other member functions in any order) \<^verbatim>\<open>KeyMap\<close> holds, for each key of
  the program cache, the pair of its common key and the key, once, and no other pair; the
  number of pairs is the size of the program cache. Every call keeps this true from any
  cache where it holds.
\<close>

theorem KeyMap_follows_Cache:
  "KeyMap_in_sync (MCachedPrograms (snd (calls xs (KernelProgramCache_new ctx)))) \<and>
   length (KeyMap (MCachedPrograms (snd (calls xs (KernelProgramCache_new ctx))))) =
     ProgramCache_size (MCachedPrograms (snd (calls xs (KernelProgramCache_new ctx)))) \<and>
   (KeyMap_in_sync (MCachedPrograms c) \<longrightarrow>
      KeyMap_in_sync (MCachedPrograms (snd (calls xs c))) \<and>
      length (KeyMap (MCachedPrograms (snd (calls xs c)))) =
        ProgramCache_size (MCachedPrograms (snd (calls xs c))))"
proof -
  have "KeyMap_in_sync (MCachedPrograms (KernelProgramCache_new ctx))"
    by (simp add: KernelProgramCache_new_def KeyMap_in_sync_empty)
  then have new: "KeyMap_in_sync (MCachedPrograms (snd (calls xs (KernelProgramCache_new ctx))))"
    by (rule KeyMap_in_sync_calls)
  from new KeyMap_in_sync_size [OF new] KeyMap_in_sync_calls [of c xs] KeyMap_in_sync_size
  show ?thesis by blast
qed

theorem KeyMap_follows_Cache_witness:
  "KeyMap_in_sync (MCachedPrograms (KernelProgramCache_new nullptr)) \<and>
   KeyMap (MCachedPrograms
     (snd (calls [OpGetOrInsertProgram (([1, 2], 7), (Addr 1, ''-O0'')),
                  OpGetOrInsertProgram (([1, 2], 7), (Addr 1, ''-O2'')),
                  OpGetOrInsertProgram (([1, 2], 7), (Addr 1, ''-O0''))]
             (KernelProgramCache_new nullptr)))) =
     [((7, Addr 1), (([1, 2], 7), (Addr 1, ''-O0''))),
      ((7, Addr 1), (([1, 2], 7), (Addr 1, ''-O2'')))] \<and>
   ProgramCache_size (MCachedPrograms
     (snd (calls [OpGetOrInsertProgram (([1, 2], 7), (Addr 1, ''-O0'')),
                  OpGetOrInsertProgram (([1, 2], 7), (Addr 1, ''-O2'')),
                  OpGetOrInsertProgram (([1, 2], 7), (Addr 1, ''-O0''))]
             (KernelProgramCache_new nullptr)))) = 2"
proof -
  let ?c = "KernelProgramCache_new nullptr"
  let ?k0 = "(([1, 2], 7), (Addr 1, ''-O0'')) :: ProgramCacheKeyT"
  let ?k2 = "(([1, 2], 7), (Addr 1, ''-O2'')) :: ProgramCacheKeyT"
  let ?xs = "[OpGetOrInsertProgram ?k0, OpGetOrInsertProgram ?k2, OpGetOrInsertProgram ?k0]"
  have a0: "deref_program ?c ?k0 = None" by simp
  let ?c1 = "snd (getOrInsertProgram ?k0 ?c)"
  have a1: "deref_program ?c1 ?k2 = None"
    by (simp add: deref_program_getOrInsertProgram)
  let ?c2 = "snd (getOrInsertProgram ?k2 ?c1)"
  have a2: "deref_program ?c2 ?k0 = Some (BuildResult_ctor nullptr BS_InProgress)"
    by (simp add: deref_program_getOrInsertProgram)
  have third: "snd (getOrInsertProgram ?k0 ?c2) = ?c2"
    using getOrInsertProgram_present [OF a2] by simp
  have "snd (calls ?xs ?c) = snd (getOrInsertProgram ?k0 ?c2)"
    by (simp only: calls_Cons calls.simps(1) call_getOrInsertProgram snd_conv)
  with third have run: "snd (calls ?xs ?c) = ?c2"
    by simp
  have km: "KeyMap (MCachedPrograms ?c2) = [((7, Addr 1), ?k0), ((7, Addr 1), ?k2)]"
    using KeyMap_getOrInsertProgram_absent [OF a1] KeyMap_getOrInsertProgram_absent [OF a0]
    by (simp add: KernelProgramCache_new_def ProgramCache_empty_def CommonKey_def)
  have sync0: "KeyMap_in_sync (MCachedPrograms ?c)"
    by (simp add: KernelProgramCache_new_def KeyMap_in_sync_empty)
  from KeyMap_follows_Cache [of ?xs nullptr ?c] sync0
  have "length (KeyMap (MCachedPrograms (snd (calls ?xs ?c)))) =
      ProgramCache_size (MCachedPrograms (snd (calls ?xs ?c)))"
    by blast
  with run km have "ProgramCache_size (MCachedPrograms (snd (calls ?xs ?c))) = 2"
    by simp
  with run km sync0 show ?thesis by simp
qed

end
